theory Spec2Isabelle
  imports Main "HOL-Library.Word"
begin

unbundle bit_operations_syntax

section \<open>Values of the host language\<close>

text \<open>
  The codec of \<^verbatim>\<open>packstream-v1.js\<close> dispatches on the run-time type of a JavaScript value.
  The datatype below has one constructor for every case that the dispatch of
  \<^verbatim>\<open>Packer.packable\<close> tells apart:
  \<^item> \<open>VNumber\<close>: a host number (\<^verbatim>\<open>typeof x === 'number'\<close>), kept as the 64 bits of its
    IEEE 754 binary64 form, which is all that \<^verbatim>\<open>writeFloat64\<close> and \<^verbatim>\<open>readFloat64\<close> move;
  \<^item> \<open>VString\<close>: a string, kept as the sequence of its UTF-8 code units;
  \<^item> \<open>VBigInt\<close>: a host big integer; \<open>VInteger\<close>: an instance of the driver's 64-bit
    \<^verbatim>\<open>Integer\<close> (\<^verbatim>\<open>isInt\<close>); \<open>VBytes\<close>: an \<^verbatim>\<open>Int8Array\<close>;
  \<^item> \<open>VArray\<close>: an \<^verbatim>\<open>Array\<close>, whose elements may be \<open>VUndefined\<close>;
  \<^item> \<open>VIterable\<close>: an iterable that is none of the above; \<^verbatim>\<open>Array.from\<close> either gives its
    elements (\<open>Inr\<close>) or throws an exception with the given message (\<open>Inl\<close>);
  \<^item> \<open>VStructure\<close>: a \<^verbatim>\<open>Structure\<close> with its signature and fields;
  \<^item> \<open>VObject\<close>: any other object, as the list of its own enumerable properties in the
    order of \<^verbatim>\<open>Object.keys\<close>;
  \<^item> \<open>VOther\<close>: anything else (a function, a symbol), named by a label.
\<close>

type_synonym byte = "8 word"

type_synonym Integer = "64 word"

datatype jsval =
    VUndefined
  | VNull
  | VBool bool
  | VNumber "64 word"
  | VString string
  | VBigInt int
  | VInteger Integer
  | VBytes "byte list"
  | VArray "jsval list"
  | VIterable "string + jsval list"
  | VStructure nat "jsval list"
  | VObject "(string \<times> jsval) list"
  | VOther string

subsection \<open>Marker bytes\<close>

definition TINY_STRING :: nat where "TINY_STRING = 0x80"
definition TINY_LIST :: nat where "TINY_LIST = 0x90"
definition TINY_MAP :: nat where "TINY_MAP = 0xa0"
definition TINY_STRUCT :: nat where "TINY_STRUCT = 0xb0"
definition NULL :: nat where "NULL = 0xc0"
definition FLOAT_64 :: nat where "FLOAT_64 = 0xc1"
definition FALSE :: nat where "FALSE = 0xc2"
definition TRUE :: nat where "TRUE = 0xc3"
definition INT_8 :: nat where "INT_8 = 0xc8"
definition INT_16 :: nat where "INT_16 = 0xc9"
definition INT_32 :: nat where "INT_32 = 0xca"
definition INT_64 :: nat where "INT_64 = 0xcb"
definition STRING_8 :: nat where "STRING_8 = 0xd0"
definition STRING_16 :: nat where "STRING_16 = 0xd1"
definition STRING_32 :: nat where "STRING_32 = 0xd2"
definition LIST_8 :: nat where "LIST_8 = 0xd4"
definition LIST_16 :: nat where "LIST_16 = 0xd5"
definition LIST_32 :: nat where "LIST_32 = 0xd6"
definition BYTES_8 :: nat where "BYTES_8 = 0xcc"
definition BYTES_16 :: nat where "BYTES_16 = 0xcd"
definition BYTES_32 :: nat where "BYTES_32 = 0xce"
definition MAP_8 :: nat where "MAP_8 = 0xd8"
definition MAP_16 :: nat where "MAP_16 = 0xd9"
definition MAP_32 :: nat where "MAP_32 = 0xda"
definition STRUCT_8 :: nat where "STRUCT_8 = 0xdc"
definition STRUCT_16 :: nat where "STRUCT_16 = 0xdd"

lemmas marker_defs =
  TINY_STRING_def TINY_LIST_def TINY_MAP_def TINY_STRUCT_def NULL_def FLOAT_64_def
  FALSE_def TRUE_def INT_8_def INT_16_def INT_32_def INT_64_def STRING_8_def
  STRING_16_def STRING_32_def LIST_8_def LIST_16_def LIST_32_def BYTES_8_def
  BYTES_16_def BYTES_32_def MAP_8_def MAP_16_def MAP_32_def STRUCT_8_def STRUCT_16_def

subsection \<open>Errors\<close>

text \<open>
  \<open>Neo4jError\<close> is an error made by the codec with \<^verbatim>\<open>newError\<close>, with its message and code;
  \<open>Thrown\<close> is an exception raised by code of the caller (a hook, an iterable) or by the host
  (a conversion to a string), named by its message.
\<close>

datatype error = Neo4jError string string | Thrown string

definition PROTOCOL_ERROR :: string where
  "PROTOCOL_ERROR = ''ProtocolError''"

text \<open>
  Modelled from the spec: \<^verbatim>\<open>newError\<close> of \<^verbatim>\<open>core/index.ts\<close>, which is not among the sources.
  Section 7 of the specification: "One error kind, ProtocolError, covers all codec failures",
  so an error made without an explicit code has that kind as well.
\<close>

definition newError :: "string \<Rightarrow> string option \<Rightarrow> error" where
  "newError msg c = Neo4jError msg (case c of None \<Rightarrow> PROTOCOL_ERROR | Some k \<Rightarrow> k)"

fun error_message :: "error \<Rightarrow> string" where
  "error_message (Neo4jError m c) = m"
| "error_message (Thrown m) = m"

text \<open>Decimal and hexadecimal numerals, as string concatenation and \<^verbatim>\<open>toString(16)\<close> give.\<close>

definition digit_char :: "nat \<Rightarrow> char" where
  "digit_char d = ''0123456789abcdef'' ! d"

fun decimal :: "nat \<Rightarrow> string" where
  "decimal n = (if n < 10 then [digit_char n] else decimal (n div 10) @ [digit_char (n mod 10)])"

fun hexadecimal :: "nat \<Rightarrow> string" where
  "hexadecimal n =
     (if n < 16 then [digit_char n] else hexadecimal (n div 16) @ [digit_char (n mod 16)])"

declare decimal.simps [simp del] hexadecimal.simps [simp del]

section \<open>The channel and the packer\<close>

text \<open>
  A \<^verbatim>\<open>Packer\<close> holds its channel and the flag \<^verbatim>\<open>_byteArraysSupported\<close>. The channel is the
  sequence of the bytes written so far, in stream order.
\<close>

record packer =
  ch :: "byte list"
  byteArraysSupported :: bool

text \<open>
  A statement of the packer either returns, throws, or has not finished within the bound on the
  nesting of calls that \<open>packable\<close> is given (see there); in each case the packer is left in
  some state. A \<^verbatim>\<open>() => ...\<close> closure over the packer is a function of that state.
\<close>

datatype 'a outcome = Return 'a | Throw error | OutOfFuel

type_synonym thunk = "packer \<Rightarrow> unit outcome \<times> packer"

definition throwError :: "error \<Rightarrow> thunk" where
  "throwError e s = (Throw e, s)"

text \<open>Statements run one after the other; the first that does not return ends the run.\<close>

fun seq :: "thunk list \<Rightarrow> thunk" where
  "seq [] s = (Return (), s)"
| "seq (f # fs) s =
     (case f s of
        (Return u, s') \<Rightarrow> seq fs s'
      | (Throw e, s') \<Rightarrow> (Throw e, s')
      | (OutOfFuel, s') \<Rightarrow> (OutOfFuel, s'))"

text \<open>
  Modelled from the spec: the ByteChannel of \<^verbatim>\<open>channel/index.js\<close>, which is not among the
  sources. Section 6: \<^verbatim>\<open>writeUInt8\<close> writes one unsigned byte, \<^verbatim>\<open>writeInt8\<close>, \<^verbatim>\<open>writeInt16\<close>
  and \<^verbatim>\<open>writeInt32\<close> write two's-complement big-endian integers of the stated width,
  \<^verbatim>\<open>writeFloat64\<close> writes the eight bytes of a binary64, big-endian, and \<^verbatim>\<open>writeBytes\<close> writes
  a run of bytes. Each stores the low bits of the number it is given.
\<close>

definition emit :: "byte list \<Rightarrow> thunk" where
  "emit bs s = (Return (), s\<lparr>ch := ch s @ bs\<rparr>)"

definition writeUInt8 :: "nat \<Rightarrow> thunk" where
  "writeUInt8 v = emit [of_nat v]"

definition writeInt8 :: "int \<Rightarrow> thunk" where
  "writeInt8 v = emit [of_int v]"

definition writeInt16 :: "int \<Rightarrow> thunk" where
  "writeInt16 v = emit [of_int (drop_bit 8 v), of_int v]"

definition writeInt32 :: "int \<Rightarrow> thunk" where
  "writeInt32 v =
     emit [of_int (drop_bit 24 v), of_int (drop_bit 16 v), of_int (drop_bit 8 v), of_int v]"

definition writeFloat64 :: "64 word \<Rightarrow> thunk" where
  "writeFloat64 x =
     emit [ucast (drop_bit 56 x), ucast (drop_bit 48 x), ucast (drop_bit 40 x),
           ucast (drop_bit 32 x), ucast (drop_bit 24 x), ucast (drop_bit 16 x),
           ucast (drop_bit 8 x), ucast x]"

definition writeBytes :: "byte list \<Rightarrow> thunk" where
  "writeBytes bs = emit bs"

text \<open>
  Modelled from the spec: the UTF-8 encoder of \<^verbatim>\<open>channel/index.js\<close>. A string is kept as its
  UTF-8 code units, so encoding gives these units as bytes.
\<close>

definition utf8_encode :: "string \<Rightarrow> byte list" where
  "utf8_encode x = map (\<lambda>c. of_nat (of_char c)) x"

text \<open>
  Modelled from the spec: the \<^verbatim>\<open>Integer\<close> class of \<^verbatim>\<open>core/index.ts\<close> (section 6, "I64 helper"):
  a 64-bit two's-complement value \<^verbatim>\<open>high << 32 | low\<close> with signed 32-bit halves, compared by
  its signed value, and made from a host integer by \<^verbatim>\<open>int\<close>.
\<close>

definition Integer_low :: "Integer \<Rightarrow> int" where
  "Integer_low x = signed_take_bit 31 (sint x)"

definition Integer_high :: "Integer \<Rightarrow> int" where
  "Integer_high x = signed_take_bit 31 (drop_bit 32 (sint x))"

definition new_Integer :: "int \<Rightarrow> int \<Rightarrow> Integer" where
  "new_Integer low high = word_of_int (push_bit 32 high + take_bit 32 low)"

definition int_of :: "int \<Rightarrow> Integer" where
  "int_of v = word_of_int v"

definition greaterThanOrEqual :: "Integer \<Rightarrow> int \<Rightarrow> bool" where
  "greaterThanOrEqual x v = (v \<le> sint x)"

definition lessThan_Integer :: "Integer \<Rightarrow> int \<Rightarrow> bool" where
  "lessThan_Integer x v = (sint x < v)"

subsection \<open>Headers and scalar values\<close>

text \<open>
  Sizes are array lengths, so natural numbers. On them \<^verbatim>\<open>(size / k) >> 0\<close> is the quotient
  \<open>size div k\<close> (in every branch the quotient is below \<open>2^31\<close>) and \<^verbatim>\<open>a | b\<close> is \<open>a OR b\<close>.
\<close>

definition packInteger :: "Integer \<Rightarrow> thunk" where
  "packInteger x =
     (let high = Integer_high x; low = Integer_low x in
      if greaterThanOrEqual x (- 0x10) \<and> lessThan_Integer x 0x80 then
        seq [writeInt8 low]
      else if greaterThanOrEqual x (- 0x80) \<and> lessThan_Integer x (- 0x10) then
        seq [writeUInt8 INT_8, writeInt8 low]
      else if greaterThanOrEqual x (- 0x8000) \<and> lessThan_Integer x 0x8000 then
        seq [writeUInt8 INT_16, writeInt16 low]
      else if greaterThanOrEqual x (- 0x80000000) \<and> lessThan_Integer x 0x80000000 then
        seq [writeUInt8 INT_32, writeInt32 low]
      else
        seq [writeUInt8 INT_64, writeInt32 high, writeInt32 low])"

definition packFloat :: "64 word \<Rightarrow> thunk" where
  "packFloat x = seq [writeUInt8 FLOAT_64, writeFloat64 x]"

definition packString :: "string \<Rightarrow> thunk" where
  "packString x =
     (let bytes = utf8_encode x; size' = length bytes in
      if size' < 0x10 then
        seq [writeUInt8 (TINY_STRING OR size'), writeBytes bytes]
      else if size' < 0x100 then
        seq [writeUInt8 STRING_8, writeUInt8 size', writeBytes bytes]
      else if size' < 0x10000 then
        seq [writeUInt8 STRING_16, writeUInt8 (size' div 256), writeUInt8 (size' mod 256),
             writeBytes bytes]
      else if size' < 0x100000000 then
        seq [writeUInt8 STRING_32, writeUInt8 ((size' div 16777216) mod 256),
             writeUInt8 ((size' div 65536) mod 256), writeUInt8 ((size' div 256) mod 256),
             writeUInt8 (size' mod 256), writeBytes bytes]
      else
        throwError (newError (''UTF-8 strings of size '' @ decimal size' @ '' are not supported'')
          None))"

definition packListHeader :: "nat \<Rightarrow> thunk" where
  "packListHeader size' =
     (if size' < 0x10 then
        seq [writeUInt8 (TINY_LIST OR size')]
      else if size' < 0x100 then
        seq [writeUInt8 LIST_8, writeUInt8 size']
      else if size' < 0x10000 then
        seq [writeUInt8 LIST_16, writeUInt8 ((size' div 256) mod 256), writeUInt8 (size' mod 256)]
      else if size' < 0x100000000 then
        seq [writeUInt8 LIST_32, writeUInt8 ((size' div 16777216) mod 256),
             writeUInt8 ((size' div 65536) mod 256), writeUInt8 ((size' div 256) mod 256),
             writeUInt8 (size' mod 256)]
      else
        throwError (newError (''Lists of size '' @ decimal size' @ '' are not supported'') None))"

definition packBytesHeader :: "nat \<Rightarrow> thunk" where
  "packBytesHeader size' =
     (if size' < 0x100 then
        seq [writeUInt8 BYTES_8, writeUInt8 size']
      else if size' < 0x10000 then
        seq [writeUInt8 BYTES_16, writeUInt8 ((size' div 256) mod 256), writeUInt8 (size' mod 256)]
      else if size' < 0x100000000 then
        seq [writeUInt8 BYTES_32, writeUInt8 ((size' div 16777216) mod 256),
             writeUInt8 ((size' div 65536) mod 256), writeUInt8 ((size' div 256) mod 256),
             writeUInt8 (size' mod 256)]
      else
        throwError (newError (''Byte arrays of size '' @ decimal size' @ '' are not supported'')
          None))"

definition packBytes :: "byte list \<Rightarrow> thunk" where
  "packBytes array s =
     (if byteArraysSupported s then
        seq (packBytesHeader (length array) # map (\<lambda>b. writeInt8 (sint b)) array) s
      else
        throwError (newError
          ''Byte arrays are not supported by the database this driver is connected to'' None) s)"

definition packMapHeader :: "nat \<Rightarrow> thunk" where
  "packMapHeader size' =
     (if size' < 0x10 then
        seq [writeUInt8 (TINY_MAP OR size')]
      else if size' < 0x100 then
        seq [writeUInt8 MAP_8, writeUInt8 size']
      else if size' < 0x10000 then
        seq [writeUInt8 MAP_16, writeUInt8 (size' div 256), writeUInt8 (size' mod 256)]
      else if size' < 0x100000000 then
        seq [writeUInt8 MAP_32, writeUInt8 ((size' div 16777216) mod 256),
             writeUInt8 ((size' div 65536) mod 256), writeUInt8 ((size' div 256) mod 256),
             writeUInt8 (size' mod 256)]
      else
        throwError (newError (''Maps of size '' @ decimal size' @ '' are not supported'') None))"

definition packStructHeader :: "nat \<Rightarrow> nat \<Rightarrow> thunk" where
  "packStructHeader size' signature =
     (if size' < 0x10 then
        seq [writeUInt8 (TINY_STRUCT OR size'), writeUInt8 signature]
      else if size' < 0x100 then
        seq [writeUInt8 STRUCT_8, writeUInt8 size', writeUInt8 signature]
      else if size' < 0x10000 then
        seq [writeUInt8 STRUCT_16, writeUInt8 (size' div 256), writeUInt8 (size' mod 256)]
      else
        throwError (newError (''Structures of size '' @ decimal size' @ '' are not supported'')
          None))"

definition packStruct :: "nat \<Rightarrow> thunk list \<Rightarrow> thunk" where
  "packStruct signature packableFields =
     seq (packStructHeader (length packableFields) signature # packableFields)"

definition disableByteArrays :: "packer \<Rightarrow> packer" where
  "disableByteArrays s = s\<lparr>byteArraysSupported := False\<rparr>"

definition nonPackableValue :: "string \<Rightarrow> thunk" where
  "nonPackableValue message = throwError (newError message (Some PROTOCOL_ERROR))"

text \<open>
  \<open>andThen r f\<close> goes on with \<open>f\<close> where the call \<open>r\<close> has returned, and stops with the
  outcome of \<open>r\<close> otherwise.
\<close>

definition andThen :: "'a outcome \<times> packer \<Rightarrow> ('a \<Rightarrow> packer \<Rightarrow> 'b outcome \<times> packer) \<Rightarrow> 'b outcome \<times> packer" where
  "andThen r f =
     (case r of
        (Return a, s) \<Rightarrow> f a s
      | (Throw e, s) \<Rightarrow> (Throw e, s)
      | (OutOfFuel, s) \<Rightarrow> (OutOfFuel, s))"

lemma andThen_cong [fundef_cong]:
  "r = r' \<Longrightarrow> (\<And>a s. r' = (Return a, s) \<Longrightarrow> f a s = f' a s) \<Longrightarrow> andThen r f = andThen r' f'"
  by (auto simp: andThen_def split: prod.splits outcome.splits)

subsection \<open>The dispatch\<close>

text \<open>
  A dehydration hook maps a value to a value or throws (\<open>Inl\<close>, with the exception's message).
  \<open>toStr\<close> is the host's conversion of a value to a string, which a template literal applies;
  it throws where the value has no conversion, as a symbol has none (\<open>Inl\<close>, with the
  exception's message). The template literal of the last branch of \<^verbatim>\<open>packable\<close> is evaluated in
  the call, so the exception of the conversion leaves \<^verbatim>\<open>packable\<close> itself.

  \<^verbatim>\<open>packable\<close> applies the hook to its argument and goes on with the result, so with a hook that
  wraps its argument the calls nest without end. The first argument bounds the nesting of calls:
  \<open>packable\<close> and the closures it returns give \<open>OutOfFuel\<close> where the bound is reached. The
  packer is threaded through \<open>packable\<close> as through every other method.

  The loops over the elements of an array, over the fields of a structure and over the keys of an
  object are the functions \<open>packElements\<close>, \<open>packableFields\<close> and \<open>packEntries\<close>. An object
  has each key once, so \<^verbatim>\<open>x[key]\<close> is the value listed with the key.
\<close>

type_synonym hook = "jsval \<Rightarrow> string + jsval"

type_synonym conversion = "jsval \<Rightarrow> string + string"

function (sequential) packable :: "nat \<Rightarrow> conversion \<Rightarrow> hook \<Rightarrow> jsval \<Rightarrow> packer \<Rightarrow> thunk outcome \<times> packer"
and packableIterable ::
  "nat \<Rightarrow> conversion \<Rightarrow> hook \<Rightarrow> string + jsval list \<Rightarrow> packer \<Rightarrow> thunk outcome \<times> packer"
and packElements :: "nat \<Rightarrow> conversion \<Rightarrow> hook \<Rightarrow> jsval list \<Rightarrow> thunk"
and packableFields ::
  "nat \<Rightarrow> conversion \<Rightarrow> hook \<Rightarrow> jsval list \<Rightarrow> packer \<Rightarrow> thunk list outcome \<times> packer"
and packEntries :: "nat \<Rightarrow> conversion \<Rightarrow> hook \<Rightarrow> (string \<times> jsval) list \<Rightarrow> thunk"
where
  "packable 0 toStr dehydrateStruct x s = (OutOfFuel, s)"
| "packable (Suc n) toStr dehydrateStruct x s =
     (case dehydrateStruct x of
        Inl ex \<Rightarrow> (Return (throwError (Thrown ex)), s)
      | Inr x' \<Rightarrow>
         (case x' of
            VNull \<Rightarrow> (Return (writeUInt8 NULL), s)
          | VBool b \<Rightarrow>
              if b then (Return (writeUInt8 TRUE), s) else (Return (writeUInt8 FALSE), s)
          | VNumber v \<Rightarrow> (Return (packFloat v), s)
          | VString v \<Rightarrow> (Return (packString v), s)
          | VBigInt v \<Rightarrow> (Return (packInteger (int_of v)), s)
          | VInteger v \<Rightarrow> (Return (packInteger v), s)
          | VBytes v \<Rightarrow> (Return (packBytes v), s)
          | VArray xs \<Rightarrow>
              (Return (\<lambda>s1. andThen (packListHeader (length xs) s1)
                               (\<lambda>u. packElements n toStr dehydrateStruct xs)), s)
          | VIterable it \<Rightarrow> packableIterable n toStr dehydrateStruct it s
          | VStructure signature fields' \<Rightarrow>
              andThen (packableFields n toStr dehydrateStruct fields' s)
                (\<lambda>fs s1. (Return (packStruct signature fs), s1))
          | VObject kvs \<Rightarrow>
              (Return (\<lambda>s1. let count = length (filter (\<lambda>kv. snd kv \<noteq> VUndefined) kvs) in
                             andThen (packMapHeader count s1)
                               (\<lambda>u. packEntries n toStr dehydrateStruct kvs)), s)
          | VUndefined \<Rightarrow>
              (case toStr x' of
                 Inl ex \<Rightarrow> (Throw (Thrown ex), s)
               | Inr text \<Rightarrow>
                   (Return (nonPackableValue (''Unable to pack the given value: '' @ text)), s))
          | VOther l \<Rightarrow>
              (case toStr x' of
                 Inl ex \<Rightarrow> (Throw (Thrown ex), s)
               | Inr text \<Rightarrow>
                   (Return (nonPackableValue (''Unable to pack the given value: '' @ text)), s))))"
| "packableIterable n toStr dehydrateStruct it s =
     (case it of
        Inl msg \<Rightarrow>
          (case toStr (VIterable it) of
             Inl ex \<Rightarrow> (Throw (Thrown ex), s)
           | Inr text \<Rightarrow>
               (Throw (newError (''Cannot pack given iterable, '' @ msg @ '': '' @ text) None), s))
      | Inr array \<Rightarrow>
          (case packable n toStr dehydrateStruct (VArray array) s of
             (Return f, s1) \<Rightarrow> (Return f, s1)
           | (Throw e, s1) \<Rightarrow>
               (case toStr (VIterable it) of
                  Inl ex \<Rightarrow> (Throw (Thrown ex), s1)
                | Inr text \<Rightarrow>
                    (Throw (newError (''Cannot pack given iterable, '' @ error_message e @ '': '' @
                              text) None), s1))
           | (OutOfFuel, s1) \<Rightarrow> (OutOfFuel, s1)))"
| "packElements n toStr dehydrateStruct [] s = (Return (), s)"
| "packElements n toStr dehydrateStruct (x # xs) s =
     andThen (packable n toStr dehydrateStruct (if x = VUndefined then VNull else x) s)
       (\<lambda>f s1. andThen (f s1) (\<lambda>u. packElements n toStr dehydrateStruct xs))"
| "packableFields n toStr dehydrateStruct [] s = (Return [], s)"
| "packableFields n toStr dehydrateStruct (x # xs) s =
     andThen (packable n toStr dehydrateStruct x s)
       (\<lambda>f s1. andThen (packableFields n toStr dehydrateStruct xs s1)
          (\<lambda>fs s2. (Return (f # fs), s2)))"
| "packEntries n toStr dehydrateStruct [] s = (Return (), s)"
| "packEntries n toStr dehydrateStruct (kv # kvs) s =
     (if snd kv \<noteq> VUndefined then
        andThen (packString (fst kv) s)
          (\<lambda>u s1. andThen (packable n toStr dehydrateStruct (snd kv) s1)
             (\<lambda>f s2. andThen (f s2) (\<lambda>u. packEntries n toStr dehydrateStruct kvs)))
      else packEntries n toStr dehydrateStruct kvs s)"

  by pat_completeness auto

termination
  by (relation "measures
        [\<lambda>a. case a of
               Inl (Inl (n, r)) \<Rightarrow> n
             | Inl (Inr (n, r)) \<Rightarrow> n
             | Inr (Inl (n, r)) \<Rightarrow> n
             | Inr (Inr (Inl (n, r))) \<Rightarrow> n
             | Inr (Inr (Inr (n, r))) \<Rightarrow> n,
         \<lambda>a. case a of
               Inl (Inl r) \<Rightarrow> 0
             | Inl (Inr r) \<Rightarrow> 1
             | Inr (Inl (n, t, h, xs, s)) \<Rightarrow> Suc (length xs)
             | Inr (Inr (Inl (n, t, h, xs, s))) \<Rightarrow> Suc (length xs)
             | Inr (Inr (Inr (n, t, h, kvs, s))) \<Rightarrow> Suc (length kvs)]")
    auto

section \<open>The buffer and the unpacker\<close>

text \<open>
  Modelled from the spec: the ByteBuffer of \<^verbatim>\<open>channel/index.js\<close>, which is not among the
  sources. Section 6: a cursor over bytes with reads of fixed width, big-endian; a read advances
  the cursor, and a read out of range raises a protocol error. The buffer is kept as the bytes
  from the cursor on.
\<close>

type_synonym buffer = "byte list"

definition readError :: error where
  "readError = newError ''read out of range'' None"

fun readUInt8 :: "buffer \<Rightarrow> error + nat \<times> buffer" where
  "readUInt8 (b # bs) = Inr (unat b, bs)"
| "readUInt8 [] = Inl readError"

fun readInt8 :: "buffer \<Rightarrow> error + int \<times> buffer" where
  "readInt8 (b # bs) = Inr (sint b, bs)"
| "readInt8 [] = Inl readError"

fun readUInt16 :: "buffer \<Rightarrow> error + nat \<times> buffer" where
  "readUInt16 (b0 # b1 # bs) = Inr (unat b0 * 256 + unat b1, bs)"
| "readUInt16 bs = Inl readError"

fun readInt16 :: "buffer \<Rightarrow> error + int \<times> buffer" where
  "readInt16 (b0 # b1 # bs) = Inr (signed_take_bit 15 (uint b0 * 256 + uint b1), bs)"
| "readInt16 bs = Inl readError"

fun readUInt32 :: "buffer \<Rightarrow> error + nat \<times> buffer" where
  "readUInt32 (b0 # b1 # b2 # b3 # bs) =
     Inr (((unat b0 * 256 + unat b1) * 256 + unat b2) * 256 + unat b3, bs)"
| "readUInt32 bs = Inl readError"

fun readInt32 :: "buffer \<Rightarrow> error + int \<times> buffer" where
  "readInt32 (b0 # b1 # b2 # b3 # bs) =
     Inr (signed_take_bit 31 (((uint b0 * 256 + uint b1) * 256 + uint b2) * 256 + uint b3), bs)"
| "readInt32 bs = Inl readError"

fun readFloat64 :: "buffer \<Rightarrow> error + 64 word \<times> buffer" where
  "readFloat64 (b0 # b1 # b2 # b3 # b4 # b5 # b6 # b7 # bs) =
     Inr (word_of_int (((((((uint b0 * 256 + uint b1) * 256 + uint b2) * 256 + uint b3) * 256 +
            uint b4) * 256 + uint b5) * 256 + uint b6) * 256 + uint b7), bs)"
| "readFloat64 bs = Inl readError"

text \<open>
  Modelled from the spec: the UTF-8 decoder of \<^verbatim>\<open>channel/index.js\<close>; \<^verbatim>\<open>decode(buffer, n)\<close> reads
  \<open>n\<close> bytes and gives the string of these code units.
\<close>

definition utf8_decode :: "buffer \<Rightarrow> nat \<Rightarrow> error + jsval \<times> buffer" where
  "utf8_decode buffer n =
     (if n \<le> length buffer then
        Inr (VString (map (\<lambda>b. char_of (unat b)) (take n buffer)), drop n buffer)
      else Inl readError)"

text \<open>
  \<open>bind r f\<close> goes on with \<open>f\<close> where the read \<open>r\<close> has given a value, and fails with the
  error of \<open>r\<close> otherwise; the buffer goes from one to the other.
\<close>

definition bind :: "error + 'a \<times> buffer \<Rightarrow> ('a \<Rightarrow> buffer \<Rightarrow> error + 'b \<times> buffer) \<Rightarrow> error + 'b \<times> buffer" where
  "bind r f = (case r of Inl e \<Rightarrow> Inl e | Inr (a, b) \<Rightarrow> f a b)"

lemma bind_cong [fundef_cong]:
  "r = r' \<Longrightarrow> (\<And>a b. r' = Inr (a, b) \<Longrightarrow> f a b = f' a b) \<Longrightarrow> bind r f = bind r' f'"
  by (auto simp: bind_def split: sum.splits)

text \<open>
  Modelled from the spec: the conversions of the \<^verbatim>\<open>Integer\<close> class (section 6): to a host big
  integer of the same value, and to a host number, where a value outside of the safe range
  \<open>[-(2^53 - 1), 2^53 - 1]\<close> gives an infinity. \<open>double_of_int v\<close> is the binary64 that equals
  the integer \<open>v\<close>, for \<open>v\<close> in the safe range.
\<close>

fun ilog2 :: "nat \<Rightarrow> nat" where
  "ilog2 n = (if n < 2 then 0 else Suc (ilog2 (n div 2)))"

declare ilog2.simps [simp del]

definition double_of_int :: "int \<Rightarrow> 64 word" where
  "double_of_int v =
     (if v = 0 then 0
      else let a = \<bar>v\<bar>; e = ilog2 (nat a) in
        word_of_int ((if v < 0 then 2 ^ 63 else 0) + (int e + 1023) * 2 ^ 52 +
          (a - 2 ^ e) * 2 ^ (52 - e)))"

definition POSITIVE_INFINITY :: "64 word" where
  "POSITIVE_INFINITY = 0x7FF0000000000000"

definition NEGATIVE_INFINITY :: "64 word" where
  "NEGATIVE_INFINITY = 0xFFF0000000000000"

definition toBigInt :: "Integer \<Rightarrow> jsval" where
  "toBigInt x = VBigInt (sint x)"

definition toNumberOrInfinity :: "Integer \<Rightarrow> jsval" where
  "toNumberOrInfinity x =
     (if sint x < - (2 ^ 53 - 1) then VNumber NEGATIVE_INFINITY
      else if sint x > 2 ^ 53 - 1 then VNumber POSITIVE_INFINITY
      else VNumber (double_of_int (sint x)))"

subsection \<open>The unpacker\<close>

record unpacker =
  disableLosslessIntegers :: bool
  useBigInt :: bool

text \<open>
  The methods of the \<^verbatim>\<open>Unpacker\<close> that interpret a marker return \<^verbatim>\<open>null\<close>, here \<open>VNull\<close>,
  where the marker is not theirs. The marker is the number that \<^verbatim>\<open>readUInt8\<close> gives.
\<close>

definition unpackBoolean :: "nat \<Rightarrow> jsval" where
  "unpackBoolean marker =
     (if marker = TRUE then VBool True
      else if marker = FALSE then VBool False
      else VNull)"

definition unpackInteger :: "nat \<Rightarrow> buffer \<Rightarrow> error + jsval \<times> buffer" where
  "unpackInteger marker buffer =
     (if marker \<ge> 0 \<and> marker < 128 then Inr (VInteger (int_of (int marker)), buffer)
      else if marker \<ge> 240 \<and> marker < 256 then Inr (VInteger (int_of (int marker - 256)), buffer)
      else if marker = INT_8 then
        bind (readInt8 buffer) (\<lambda>v b. Inr (VInteger (int_of v), b))
      else if marker = INT_16 then
        bind (readInt16 buffer) (\<lambda>v b. Inr (VInteger (int_of v), b))
      else if marker = INT_32 then
        bind (readInt32 buffer) (\<lambda>v b. Inr (VInteger (int_of v), b))
      else if marker = INT_64 then
        bind (readInt32 buffer) (\<lambda>high b.
          bind (readInt32 b) (\<lambda>low b'. Inr (VInteger (new_Integer low high), b')))
      else Inr (VNull, buffer))"

definition unpackNumberOrInteger :: "nat \<Rightarrow> buffer \<Rightarrow> error + jsval \<times> buffer" where
  "unpackNumberOrInteger marker buffer =
     (if marker = FLOAT_64 then bind (readFloat64 buffer) (\<lambda>v b. Inr (VNumber v, b))
      else unpackInteger marker buffer)"

definition unpackString :: "nat \<Rightarrow> nat \<Rightarrow> nat \<Rightarrow> buffer \<Rightarrow> error + jsval \<times> buffer" where
  "unpackString marker markerHigh markerLow buffer =
     (if markerHigh = TINY_STRING then utf8_decode buffer markerLow
      else if marker = STRING_8 then bind (readUInt8 buffer) (\<lambda>n b. utf8_decode b n)
      else if marker = STRING_16 then bind (readUInt16 buffer) (\<lambda>n b. utf8_decode b n)
      else if marker = STRING_32 then bind (readUInt32 buffer) (\<lambda>n b. utf8_decode b n)
      else Inr (VNull, buffer))"

fun unpackByteArrayWithSize :: "nat \<Rightarrow> buffer \<Rightarrow> error + byte list \<times> buffer" where
  "unpackByteArrayWithSize 0 buffer = Inr ([], buffer)"
| "unpackByteArrayWithSize (Suc n) buffer =
     bind (readInt8 buffer) (\<lambda>v b.
       bind (unpackByteArrayWithSize n b) (\<lambda>vs b'. Inr (word_of_int v # vs, b')))"

definition unpackByteArray :: "nat \<Rightarrow> buffer \<Rightarrow> error + jsval \<times> buffer" where
  "unpackByteArray marker buffer =
     (if marker = BYTES_8 then
        bind (readUInt8 buffer) (\<lambda>n b.
          bind (unpackByteArrayWithSize n b) (\<lambda>vs b'. Inr (VBytes vs, b')))
      else if marker = BYTES_16 then
        bind (readUInt16 buffer) (\<lambda>n b.
          bind (unpackByteArrayWithSize n b) (\<lambda>vs b'. Inr (VBytes vs, b')))
      else if marker = BYTES_32 then
        bind (readUInt32 buffer) (\<lambda>n b.
          bind (unpackByteArrayWithSize n b) (\<lambda>vs b'. Inr (VBytes vs, b')))
      else Inr (VNull, buffer))"

text \<open>
  \<^verbatim>\<open>value[key] = v\<close> on an object that \<^verbatim>\<open>{}\<close> has made, by the rules of the host language. The key
  is the decoded value converted to a string (a string is its own conversion). An object is the
  list of its own properties in the order in which \<^verbatim>\<open>Object.keys\<close> gives them: the keys that are
  array indices, which are the decimal numerals of the numbers below \<open>2^32 - 1\<close>, in ascending
  order, and then the other keys in the order of their creation. A key that the object has keeps
  its place and takes the new value; a new key takes its place in this order. The key
  \<^verbatim>\<open>__proto__\<close> is the accessor that the object inherits from \<^verbatim>\<open>Object.prototype\<close>: assigning to it
  makes no property of the object.
\<close>

definition propertyKey :: "(jsval \<Rightarrow> string) \<Rightarrow> jsval \<Rightarrow> string" where
  "propertyKey toStr key = (case key of VString k \<Rightarrow> k | _ \<Rightarrow> toStr key)"

definition digit_of :: "char \<Rightarrow> nat option" where
  "digit_of c =
     (let d = (of_char c :: nat) in if 48 \<le> d \<and> d \<le> 57 then Some (d - 48) else None)"

fun number_of :: "nat \<Rightarrow> string \<Rightarrow> nat option" where
  "number_of n [] = Some n"
| "number_of n (c # cs) =
     (case digit_of c of None \<Rightarrow> None | Some d \<Rightarrow> number_of (10 * n + d) cs)"

definition array_index :: "string \<Rightarrow> nat option" where
  "array_index k =
     (case number_of 0 k of
        None \<Rightarrow> None
      | Some n \<Rightarrow> if n < 2 ^ 32 - 1 \<and> decimal n = k then Some n else None)"

definition key_before :: "string \<Rightarrow> string \<Rightarrow> bool" where
  "key_before k k' =
     (case array_index k of
        Some i \<Rightarrow> (case array_index k' of Some j \<Rightarrow> i < j | None \<Rightarrow> True)
      | None \<Rightarrow> array_index k' = None)"

definition setProperty :: "(string \<times> jsval) list \<Rightarrow> string \<Rightarrow> jsval \<Rightarrow> (string \<times> jsval) list" where
  "setProperty ps k v =
     (if k = ''__proto__'' then ps
      else if k \<in> fst ` set ps then map (\<lambda>p. if fst p = k then (k, v) else p) ps
      else takeWhile (\<lambda>p. key_before (fst p) k) ps @ (k, v) #
           dropWhile (\<lambda>p. key_before (fst p) k) ps)"

text \<open>
  A read leaves no more of the buffer than it found (\<open>advances False\<close>), and less where
  \<open>advances True\<close> holds.
\<close>

definition advances :: "bool \<Rightarrow> buffer \<Rightarrow> error + 'a \<times> buffer \<Rightarrow> bool" where
  "advances strict buffer r =
     (case r of
        Inl e \<Rightarrow> True
      | Inr (a, b) \<Rightarrow> if strict then length b < length buffer else length b \<le> length buffer)"

lemma advances_Inl [simp]: "advances st buffer (Inl e)"
  by (simp add: advances_def)

lemma advances_Inr [simp]:
  "advances st buffer (Inr (a, b)) =
     (if st then length b < length buffer else length b \<le> length buffer)"
  by (simp add: advances_def)

lemma advances_weaken: "advances True buffer r \<Longrightarrow> advances st buffer r"
  by (auto simp: advances_def split: sum.splits)

lemma advances_bind:
  "advances st buffer r \<Longrightarrow> (\<And>a b. r = Inr (a, b) \<Longrightarrow> advances False b (f a b)) \<Longrightarrow>
     advances st buffer (bind r f)"
  by (cases r) (auto simp: advances_def bind_def split: sum.splits if_splits)

lemma advances_readUInt8: "advances st buffer (readUInt8 buffer)"
  by (cases buffer) simp_all

lemma advances_readInt8: "advances st buffer (readInt8 buffer)"
  by (cases buffer) simp_all

lemma advances_readUInt16: "advances st buffer (readUInt16 buffer)"
  by (cases buffer rule: readUInt16.cases) simp_all

lemma advances_readInt16: "advances st buffer (readInt16 buffer)"
  by (cases buffer rule: readInt16.cases) simp_all

lemma advances_readUInt32: "advances st buffer (readUInt32 buffer)"
  by (cases buffer rule: readUInt32.cases) simp_all

lemma advances_readInt32: "advances st buffer (readInt32 buffer)"
  by (cases buffer rule: readInt32.cases) simp_all

lemma advances_readFloat64: "advances st buffer (readFloat64 buffer)"
  by (cases buffer rule: readFloat64.cases) simp_all

lemmas advances_reads =
  advances_readUInt8 advances_readInt8 advances_readUInt16 advances_readInt16
  advances_readUInt32 advances_readInt32 advances_readFloat64

lemma advances_utf8_decode: "advances False buffer (utf8_decode buffer n)"
  by (simp add: utf8_decode_def)

lemma advances_unpackNumberOrInteger: "advances False buffer (unpackNumberOrInteger marker buffer)"
  by (auto simp: unpackNumberOrInteger_def unpackInteger_def
      intro!: advances_bind advances_reads)

lemma advances_unpackString:
  "advances False buffer (unpackString marker markerHigh markerLow buffer)"
  by (auto simp: unpackString_def intro!: advances_bind advances_reads advances_utf8_decode)

lemma advances_unpackByteArrayWithSize: "advances False buffer (unpackByteArrayWithSize n buffer)"
  by (induction n arbitrary: buffer) (auto intro!: advances_bind advances_reads)

lemma advances_unpackByteArray: "advances False buffer (unpackByteArray marker buffer)"
  by (auto simp: unpackByteArray_def
      intro!: advances_bind advances_reads advances_unpackByteArrayWithSize)

lemma advancesD:
  "advances st buffer r \<Longrightarrow> r = Inr (a, b) \<Longrightarrow> length b \<le> length buffer"
  by (auto simp: advances_def split: if_splits)

lemma advances_strictD:
  "advances True buffer r \<Longrightarrow> r = Inr (a, b) \<Longrightarrow> length b < length buffer"
  by (auto simp: advances_def)

text \<open>
  A hydration hook maps a decoded structure to a value or throws. \<open>unpack\<close> and the methods
  that call it back are one recursion; the loop over the fields of a structure is the loop
  over the elements of a list.
\<close>

function (sequential)
  unpack :: "unpacker \<Rightarrow> (jsval \<Rightarrow> string) \<Rightarrow> hook \<Rightarrow> buffer \<Rightarrow> error + jsval \<times> buffer"
and unpackList ::
  "unpacker \<Rightarrow> (jsval \<Rightarrow> string) \<Rightarrow> hook \<Rightarrow> nat \<Rightarrow> nat \<Rightarrow> nat \<Rightarrow> buffer \<Rightarrow> error + jsval \<times> buffer"
and unpackListWithSize ::
  "unpacker \<Rightarrow> (jsval \<Rightarrow> string) \<Rightarrow> hook \<Rightarrow> nat \<Rightarrow> buffer \<Rightarrow> error + jsval list \<times> buffer"
and unpackMap ::
  "unpacker \<Rightarrow> (jsval \<Rightarrow> string) \<Rightarrow> hook \<Rightarrow> nat \<Rightarrow> nat \<Rightarrow> nat \<Rightarrow> buffer \<Rightarrow> error + jsval \<times> buffer"
and unpackMapWithSize ::
  "unpacker \<Rightarrow> (jsval \<Rightarrow> string) \<Rightarrow> hook \<Rightarrow> nat \<Rightarrow> (string \<times> jsval) list \<Rightarrow> buffer \<Rightarrow>
     error + jsval \<times> buffer"
and unpackStruct ::
  "unpacker \<Rightarrow> (jsval \<Rightarrow> string) \<Rightarrow> hook \<Rightarrow> nat \<Rightarrow> nat \<Rightarrow> nat \<Rightarrow> buffer \<Rightarrow> error + jsval \<times> buffer"
and unpackStructWithSize ::
  "unpacker \<Rightarrow> (jsval \<Rightarrow> string) \<Rightarrow> hook \<Rightarrow> nat \<Rightarrow> buffer \<Rightarrow> error + jsval \<times> buffer"
where
  "unpack U toStr hydrateStructure buffer =
     bind (readUInt8 buffer) (\<lambda>marker b0.
       let markerHigh = marker AND 0xf0; markerLow = marker AND 0x0f in
       if marker = NULL then Inr (VNull, b0)
       else let boolean = unpackBoolean marker in
       if boolean \<noteq> VNull then Inr (boolean, b0)
       else bind (unpackNumberOrInteger marker b0) (\<lambda>numberOrInteger b1.
       if numberOrInteger \<noteq> VNull then
         (case numberOrInteger of
            VInteger i \<Rightarrow>
              if useBigInt U then Inr (toBigInt i, b1)
              else if disableLosslessIntegers U then Inr (toNumberOrInfinity i, b1)
              else Inr (numberOrInteger, b1)
          | _ \<Rightarrow> Inr (numberOrInteger, b1))
       else bind (unpackString marker markerHigh markerLow b1) (\<lambda>string b2.
       if string \<noteq> VNull then Inr (string, b2)
       else bind (unpackList U toStr hydrateStructure marker markerHigh markerLow b2) (\<lambda>list' b3.
       if list' \<noteq> VNull then Inr (list', b3)
       else bind (unpackByteArray marker b3) (\<lambda>byteArray b4.
       if byteArray \<noteq> VNull then Inr (byteArray, b4)
       else bind (unpackMap U toStr hydrateStructure marker markerHigh markerLow b4) (\<lambda>map' b5.
       if map' \<noteq> VNull then Inr (map', b5)
       else bind (unpackStruct U toStr hydrateStructure marker markerHigh markerLow b5) (\<lambda>struct b6.
       if struct \<noteq> VNull then Inr (struct, b6)
       else Inl (newError (''Unknown packed value with marker '' @ hexadecimal marker) None))))))))"
| "unpackList U toStr hydrateStructure marker markerHigh markerLow buffer =
     (if markerHigh = TINY_LIST then
        bind (unpackListWithSize U toStr hydrateStructure markerLow buffer)
          (\<lambda>vs b. Inr (VArray vs, b))
      else if marker = LIST_8 then
        bind (readUInt8 buffer) (\<lambda>n b0.
          bind (unpackListWithSize U toStr hydrateStructure n b0) (\<lambda>vs b. Inr (VArray vs, b)))
      else if marker = LIST_16 then
        bind (readUInt16 buffer) (\<lambda>n b0.
          bind (unpackListWithSize U toStr hydrateStructure n b0) (\<lambda>vs b. Inr (VArray vs, b)))
      else if marker = LIST_32 then
        bind (readUInt32 buffer) (\<lambda>n b0.
          bind (unpackListWithSize U toStr hydrateStructure n b0) (\<lambda>vs b. Inr (VArray vs, b)))
      else Inr (VNull, buffer))"
| "unpackListWithSize U toStr hydrateStructure 0 buffer = Inr ([], buffer)"
| "unpackListWithSize U toStr hydrateStructure (Suc n) buffer =
     bind (unpack U toStr hydrateStructure buffer) (\<lambda>v b0.
       bind (unpackListWithSize U toStr hydrateStructure n b0) (\<lambda>vs b. Inr (v # vs, b)))"
| "unpackMap U toStr hydrateStructure marker markerHigh markerLow buffer =
     (if markerHigh = TINY_MAP then
        unpackMapWithSize U toStr hydrateStructure markerLow [] buffer
      else if marker = MAP_8 then
        bind (readUInt8 buffer) (\<lambda>n b0. unpackMapWithSize U toStr hydrateStructure n [] b0)
      else if marker = MAP_16 then
        bind (readUInt16 buffer) (\<lambda>n b0. unpackMapWithSize U toStr hydrateStructure n [] b0)
      else if marker = MAP_32 then
        bind (readUInt32 buffer) (\<lambda>n b0. unpackMapWithSize U toStr hydrateStructure n [] b0)
      else Inr (VNull, buffer))"
| "unpackMapWithSize U toStr hydrateStructure 0 value buffer = Inr (VObject value, buffer)"
| "unpackMapWithSize U toStr hydrateStructure (Suc n) value buffer =
     bind (unpack U toStr hydrateStructure buffer) (\<lambda>key b0.
       bind (unpack U toStr hydrateStructure b0) (\<lambda>v b1.
         unpackMapWithSize U toStr hydrateStructure n
           (setProperty value (propertyKey toStr key) v) b1))"
| "unpackStruct U toStr hydrateStructure marker markerHigh markerLow buffer =
     (if markerHigh = TINY_STRUCT then
        unpackStructWithSize U toStr hydrateStructure markerLow buffer
      else if marker = STRUCT_8 then
        bind (readUInt8 buffer) (\<lambda>n b0. unpackStructWithSize U toStr hydrateStructure n b0)
      else if marker = STRUCT_16 then
        bind (readUInt16 buffer) (\<lambda>n b0. unpackStructWithSize U toStr hydrateStructure n b0)
      else Inr (VNull, buffer))"
| "unpackStructWithSize U toStr hydrateStructure structSize buffer =
     bind (readUInt8 buffer) (\<lambda>signature b0.
       bind (unpackListWithSize U toStr hydrateStructure structSize b0) (\<lambda>fields' b.
         case hydrateStructure (VStructure signature fields') of
           Inl ex \<Rightarrow> Inl (Thrown ex)
         | Inr v \<Rightarrow> Inr (v, b)))"
  by pat_completeness auto

lemma advances_unpack_dom:
  "unpack_unpackList_unpackListWithSize_unpackMap_unpackMapWithSize_unpackStruct_unpackStructWithSize_dom (Inl (Inl (U, toStr, hy, buffer))) \<Longrightarrow>
     advances True buffer (unpack U toStr hy buffer)"
  "unpack_unpackList_unpackListWithSize_unpackMap_unpackMapWithSize_unpackStruct_unpackStructWithSize_dom (Inl (Inr (Inl (U, toStr, hy, marker, markerHigh, markerLow, buffer)))) \<Longrightarrow>
     advances False buffer (unpackList U toStr hy marker markerHigh markerLow buffer)"
  "unpack_unpackList_unpackListWithSize_unpackMap_unpackMapWithSize_unpackStruct_unpackStructWithSize_dom (Inl (Inr (Inr (U, toStr, hy, n, buffer)))) \<Longrightarrow>
     advances False buffer (unpackListWithSize U toStr hy n buffer)"
  "unpack_unpackList_unpackListWithSize_unpackMap_unpackMapWithSize_unpackStruct_unpackStructWithSize_dom (Inr (Inl (Inl (U, toStr, hy, marker, markerHigh, markerLow, buffer)))) \<Longrightarrow>
     advances False buffer (unpackMap U toStr hy marker markerHigh markerLow buffer)"
  "unpack_unpackList_unpackListWithSize_unpackMap_unpackMapWithSize_unpackStruct_unpackStructWithSize_dom (Inr (Inl (Inr (U, toStr, hy, n, value, buffer)))) \<Longrightarrow>
     advances False buffer (unpackMapWithSize U toStr hy n value buffer)"
  "unpack_unpackList_unpackListWithSize_unpackMap_unpackMapWithSize_unpackStruct_unpackStructWithSize_dom (Inr (Inr (Inl (U, toStr, hy, marker, markerHigh, markerLow, buffer)))) \<Longrightarrow>
     advances False buffer (unpackStruct U toStr hy marker markerHigh markerLow buffer)"
  "unpack_unpackList_unpackListWithSize_unpackMap_unpackMapWithSize_unpackStruct_unpackStructWithSize_dom (Inr (Inr (Inr (U, toStr, hy, n, buffer)))) \<Longrightarrow>
     advances False buffer (unpackStructWithSize U toStr hy n buffer)"
proof (induction U toStr hy buffer and U toStr hy marker markerHigh markerLow buffer
    and U toStr hy n buffer and U toStr hy marker markerHigh markerLow buffer
    and U toStr hy n "value" buffer and U toStr hy marker markerHigh markerLow buffer
    and U toStr hy n buffer
    rule: unpack_unpackList_unpackListWithSize_unpackMap_unpackMapWithSize_unpackStruct_unpackStructWithSize.pinduct)
  case (1 U toStr hydrateStructure buffer)
  note IH = 1(2-4)
  have L: "advances False b2 (unpackList U toStr hydrateStructure a (a AND 240) (a AND 15) b2)"
    if "readUInt8 buffer = Inr (a, b0)" "a \<noteq> NULL" "unpackBoolean a = VNull"
      "unpackNumberOrInteger a b0 = Inr (VNull, b1)"
      "unpackString a (a AND 240) (a AND 15) b1 = Inr (VNull, b2)" for a b0 b1 b2
    by (rule IH(1)[OF that(1) refl refl that(2) refl _ that(4) _ that(5)])
      (simp_all add: that)
  have M: "advances False b4 (unpackMap U toStr hydrateStructure a (a AND 240) (a AND 15) b4)"
    if "readUInt8 buffer = Inr (a, b0)" "a \<noteq> NULL" "unpackBoolean a = VNull"
      "unpackNumberOrInteger a b0 = Inr (VNull, b1)"
      "unpackString a (a AND 240) (a AND 15) b1 = Inr (VNull, b2)"
      "unpackList U toStr hydrateStructure a (a AND 240) (a AND 15) b2 = Inr (VNull, b3)"
      "unpackByteArray a b3 = Inr (VNull, b4)" for a b0 b1 b2 b3 b4
    by (rule IH(2)[OF that(1) refl refl that(2) refl _ that(4) _ that(5) _ that(6) _ that(7)])
      (simp_all add: that)
  have S: "advances False b5 (unpackStruct U toStr hydrateStructure a (a AND 240) (a AND 15) b5)"
    if "readUInt8 buffer = Inr (a, b0)" "a \<noteq> NULL" "unpackBoolean a = VNull"
      "unpackNumberOrInteger a b0 = Inr (VNull, b1)"
      "unpackString a (a AND 240) (a AND 15) b1 = Inr (VNull, b2)"
      "unpackList U toStr hydrateStructure a (a AND 240) (a AND 15) b2 = Inr (VNull, b3)"
      "unpackByteArray a b3 = Inr (VNull, b4)"
      "unpackMap U toStr hydrateStructure a (a AND 240) (a AND 15) b4 = Inr (VNull, b5)"
    for a b0 b1 b2 b3 b4 b5
    by (rule IH(3)[OF that(1) refl refl that(2) refl _ that(4) _ that(5) _ that(6) _ that(7)
          _ that(8)])
      (simp_all add: that)
  show ?case
    unfolding unpack.psimps[OF 1(1)]
    apply (auto simp: Let_def
        intro!: advances_bind advances_readUInt8 advances_unpackNumberOrInteger
          advances_unpackString advances_unpackByteArray
        split: jsval.splits)
      apply (rule L; assumption)
     apply (rule M; assumption)
    apply (rule S; assumption)
    done
next
  case (2 U toStr hydrateStructure marker markerHigh markerLow buffer)
  show ?case
    unfolding unpackList.psimps[OF 2(1)]
    by (auto intro!: advances_bind advances_reads intro: 2(2-5))
next
  case (3 U toStr hydrateStructure buffer)
  then show ?case by (simp add: unpackListWithSize.psimps)
next
  case (4 U toStr hydrateStructure n buffer)
  show ?case
    unfolding unpackListWithSize.psimps(2)[OF 4(1)]
    by (auto intro!: advances_bind advances_weaken[OF 4(2)] 4(3))
next
  case (5 U toStr hydrateStructure marker markerHigh markerLow buffer)
  show ?case
    unfolding unpackMap.psimps[OF 5(1)]
    by (auto intro!: advances_bind advances_reads intro: 5(2-5))
next
  case (6 U toStr hydrateStructure "value" buffer)
  then show ?case by (simp add: unpackMapWithSize.psimps)
next
  case (7 U toStr hydrateStructure n "value" buffer)
  show ?case
    unfolding unpackMapWithSize.psimps(2)[OF 7(1)]
    by (auto intro!: advances_bind advances_weaken[OF 7(2)] advances_weaken[OF 7(3)] 7(4))
next
  case (8 U toStr hydrateStructure marker markerHigh markerLow buffer)
  show ?case
    unfolding unpackStruct.psimps[OF 8(1)]
    by (auto intro!: advances_bind advances_reads intro: 8(2-4))
next
  case (9 U toStr hydrateStructure structSize buffer)
  show ?case
    unfolding unpackStructWithSize.psimps[OF 9(1)]
    by (auto intro!: advances_bind advances_reads 9(2) split: sum.splits)
qed

lemma unpack_dom_shorter:
  "unpack_unpackList_unpackListWithSize_unpackMap_unpackMapWithSize_unpackStruct_unpackStructWithSize_dom (Inl (Inl (U, toStr, hy, buffer))) \<Longrightarrow> unpack U toStr hy buffer = Inr (a, b) \<Longrightarrow>
     length b < length buffer"
  by (rule advances_strictD[OF advances_unpack_dom(1)])

lemma unpack_dom_shorter2:
  "unpack_unpackList_unpackListWithSize_unpackMap_unpackMapWithSize_unpackStruct_unpackStructWithSize_dom (Inl (Inl (U, toStr, hy, buffer))) \<Longrightarrow> unpack_unpackList_unpackListWithSize_unpackMap_unpackMapWithSize_unpackStruct_unpackStructWithSize_dom (Inl (Inl (U, toStr, hy, b))) \<Longrightarrow>
     unpack U toStr hy buffer = Inr (a, b) \<Longrightarrow> unpack U toStr hy b = Inr (a', b') \<Longrightarrow>
     length b' < length buffer"
  using unpack_dom_shorter[of U toStr hy buffer a b] unpack_dom_shorter[of U toStr hy b a' b']
  by simp

termination unpack
proof (relation "measures
    [\<lambda>a. case a of
           Inl (Inl (U, t, h, b)) \<Rightarrow> length b
         | Inl (Inr (Inl (U, t, h, m, mh, ml, b))) \<Rightarrow> length b
         | Inl (Inr (Inr (U, t, h, n, b))) \<Rightarrow> length b
         | Inr (Inl (Inl (U, t, h, m, mh, ml, b))) \<Rightarrow> length b
         | Inr (Inl (Inr (U, t, h, n, v, b))) \<Rightarrow> length b
         | Inr (Inr (Inl (U, t, h, m, mh, ml, b))) \<Rightarrow> length b
         | Inr (Inr (Inr (U, t, h, n, b))) \<Rightarrow> length b,
     \<lambda>a. case a of
           Inl (Inl r) \<Rightarrow> 0
         | Inl (Inr (Inl r)) \<Rightarrow> 2
         | Inl (Inr (Inr r)) \<Rightarrow> 1
         | Inr (Inl (Inl r)) \<Rightarrow> 2
         | Inr (Inl (Inr r)) \<Rightarrow> 1
         | Inr (Inr (Inl r)) \<Rightarrow> 2
         | Inr (Inr (Inr r)) \<Rightarrow> Suc 0]", goal_cases)
  case 1
  show ?case by simp
next
  case (2 U toStr hydrateStructure buffer a b x xa xb aa ba aaa bb)
  from advances_strictD[OF advances_readUInt8 2(1)]
    advancesD[OF advances_unpackNumberOrInteger 2(7)]
    advancesD[OF advances_unpackString 2(9)]
  show ?case by simp
next
  case (3 U toStr hydrateStructure buffer a b x xa xb aa ba aaa bb aab bc aac bd)
  from advances_strictD[OF advances_readUInt8 3(1)]
    advancesD[OF advances_unpackNumberOrInteger 3(7)]
    advancesD[OF advances_unpackString 3(9)]
    advancesD[OF advances_unpack_dom(2)[OF 3(15)] 3(11)]
    advancesD[OF advances_unpackByteArray 3(13)]
  show ?case by simp
next
  case (4 U toStr hydrateStructure buffer a b x xa xb aa ba aaa bb aab bc aac bd aad be)
  from advances_strictD[OF advances_readUInt8 4(1)]
    advancesD[OF advances_unpackNumberOrInteger 4(7)]
    advancesD[OF advances_unpackString 4(9)]
    advancesD[OF advances_unpack_dom(2)[OF 4(18)] 4(11)]
    advancesD[OF advances_unpackByteArray 4(13)]
    advancesD[OF advances_unpack_dom(4)[OF 4(17)] 4(15)]
  show ?case by simp
qed (auto dest: advances_strictD[OF advances_readUInt8] advances_strictD[OF advances_readUInt16]
       advances_strictD[OF advances_readUInt32] unpack_dom_shorter intro: unpack_dom_shorter2)

text \<open>
  \<^verbatim>\<open>this.packable(x, dehydrateStruct)()\<close>: the closure is made and called at once. This is how a
  value is encoded.
\<close>

definition invoke :: "nat \<Rightarrow> conversion \<Rightarrow> hook \<Rightarrow> jsval \<Rightarrow> thunk" where
  "invoke n toStr dehydrateStruct x s = andThen (packable n toStr dehydrateStruct x s) (\<lambda>f. f)"

section \<open>The wire format, as the specification states it\<close>

text \<open>
  \<open>be_bytes k v\<close> is the two's-complement big-endian form of the integer \<open>v\<close> in \<open>k\<close> bytes.
\<close>

definition be_bytes :: "nat \<Rightarrow> int \<Rightarrow> byte list" where
  "be_bytes k v = map (\<lambda>i. word_of_int (drop_bit (8 * i) v)) (rev [0..<k])"

text \<open>
  The integer forms of section 4.1 with their ranges and lengths, and the form that section 4.2
  selects for a signed value.
\<close>

datatype int_form = Tiny | Int8 | Int16 | Int32 | Int64

fun form_contains :: "int_form \<Rightarrow> int \<Rightarrow> bool" where
  "form_contains Tiny v = (- 16 \<le> v \<and> v < 128)"
| "form_contains Int8 v = (- (2 ^ 7) \<le> v \<and> v < 2 ^ 7)"
| "form_contains Int16 v = (- (2 ^ 15) \<le> v \<and> v < 2 ^ 15)"
| "form_contains Int32 v = (- (2 ^ 31) \<le> v \<and> v < 2 ^ 31)"
| "form_contains Int64 v = (- (2 ^ 63) \<le> v \<and> v < 2 ^ 63)"

fun form_length :: "int_form \<Rightarrow> nat" where
  "form_length Tiny = 1"
| "form_length Int8 = 2"
| "form_length Int16 = 3"
| "form_length Int32 = 5"
| "form_length Int64 = 9"

definition spec_integer_bytes :: "int \<Rightarrow> byte list" where
  "spec_integer_bytes v =
     (if - 16 \<le> v \<and> v < 128 then be_bytes 1 v
      else if - 128 \<le> v \<and> v < - 16 then 0xC8 # be_bytes 1 v
      else if - (2 ^ 15) \<le> v \<and> v < 2 ^ 15 then 0xC9 # be_bytes 2 v
      else if - (2 ^ 31) \<le> v \<and> v < 2 ^ 31 then 0xCA # be_bytes 4 v
      else 0xCB # be_bytes 8 v)"

text \<open>
  The markers of the table of section 4.1, in the order of the table: Null, True, False, Float64,
  the integer forms, and the string, list, map, bytes and structure forms.
\<close>

definition recognized :: "nat \<Rightarrow> bool" where
  "recognized m =
     (m = 0xC0 \<or> m = 0xC3 \<or> m = 0xC2 \<or> m = 0xC1 \<or>
      m \<le> 0x7F \<or> (0xF0 \<le> m \<and> m \<le> 0xFF) \<or>
      m = 0xC8 \<or> m = 0xC9 \<or> m = 0xCA \<or> m = 0xCB \<or>
      (0x80 \<le> m \<and> m \<le> 0x8F) \<or> m = 0xD0 \<or> m = 0xD1 \<or> m = 0xD2 \<or>
      (0x90 \<le> m \<and> m \<le> 0x9F) \<or> m = 0xD4 \<or> m = 0xD5 \<or> m = 0xD6 \<or>
      (0xA0 \<le> m \<and> m \<le> 0xAF) \<or> m = 0xD8 \<or> m = 0xD9 \<or> m = 0xDA \<or>
      m = 0xCC \<or> m = 0xCD \<or> m = 0xCE \<or>
      (0xB0 \<le> m \<and> m \<le> 0xBF) \<or> m = 0xDC \<or> m = 0xDD)"

text \<open>The error that \<open>unpack\<close> raises where no interpretation takes the marker.\<close>

definition unknownMarker :: "nat \<Rightarrow> error" where
  "unknownMarker m = newError (''Unknown packed value with marker '' @ hexadecimal m) None"

subsection \<open>The bytes of a value\<close>

text \<open>
  The encoding of a value as sections 4.1 and 4.2 give it. \<open>size_header\<close> is the header of a
  string, a list or a map of size \<open>n\<close>: the tiny marker with the size in its low half below 16,
  and else the marker of the smallest of the forms of 8, 16 and 32 bits with the size, big-endian.
  \<open>bytes_header\<close> is the header of a byte array, which has no tiny form, and \<open>struct_header\<close>
  the header of a structure of fewer than 256 fields, which ends with the signature.

  \<open>enc\<close> is the encoding: the header and then the content. In a list an undefined element is
  written as Null, and of a map the entries whose value is undefined are left out, the header
  counting the others. \<open>norm\<close> is the value that is expected back: the same value, with these two
  rules applied to every list and map in it. \<open>wire_ok\<close> is the domain: the sizes below \<open>2^32\<close>,
  the keys of a map distinct, in the order in which the host language lists the keys of an
  object, and none of them \<^verbatim>\<open>__proto__\<close>, a structure with a signature of one byte and fewer
  than 256 fields, and \<open>depth\<close> is the nesting of lists, maps and structures of a value.
\<close>

definition size_header :: "nat \<Rightarrow> nat \<Rightarrow> nat \<Rightarrow> nat \<Rightarrow> nat \<Rightarrow> byte list" where
  "size_header tiny m8 m16 m32 n =
     (if n < 16 then [of_nat (tiny + n)]
      else if n < 2 ^ 8 then of_nat m8 # be_bytes 1 (int n)
      else if n < 2 ^ 16 then of_nat m16 # be_bytes 2 (int n)
      else of_nat m32 # be_bytes 4 (int n))"

definition bytes_header :: "nat \<Rightarrow> byte list" where
  "bytes_header n =
     (if n < 2 ^ 8 then 0xCC # be_bytes 1 (int n)
      else if n < 2 ^ 16 then 0xCD # be_bytes 2 (int n)
      else 0xCE # be_bytes 4 (int n))"

definition struct_header :: "nat \<Rightarrow> nat \<Rightarrow> byte list" where
  "struct_header n sig =
     (if n < 16 then [of_nat (0xB0 + n), of_nat sig]
      else [0xDC, of_nat n, of_nat sig])"

fun enc :: "jsval \<Rightarrow> byte list" where
  "enc VNull = [0xC0]"
| "enc (VBool b) = [if b then 0xC3 else 0xC2]"
| "enc (VNumber x) = 0xC1 # be_bytes 8 (uint x)"
| "enc (VInteger i) = spec_integer_bytes (sint i)"
| "enc (VString s) = size_header 0x80 0xD0 0xD1 0xD2 (length s) @ utf8_encode s"
| "enc (VBytes bs) = bytes_header (length bs) @ bs"
| "enc (VArray xs) =
     size_header 0x90 0xD4 0xD5 0xD6 (length xs) @
     concat (map (\<lambda>x. if x = VUndefined then [0xC0] else enc x) xs)"
| "enc (VObject kvs) =
     size_header 0xA0 0xD8 0xD9 0xDA (length (filter (\<lambda>kv. snd kv \<noteq> VUndefined) kvs)) @
     concat (map (\<lambda>kv. enc (VString (fst kv)) @ enc (snd kv))
       (filter (\<lambda>kv. snd kv \<noteq> VUndefined) kvs))"
| "enc (VStructure sig fs) = struct_header (length fs) sig @ concat (map enc fs)"
| "enc v = []"

fun norm :: "jsval \<Rightarrow> jsval" where
  "norm (VArray xs) = VArray (map (\<lambda>x. if x = VUndefined then VNull else norm x) xs)"
| "norm (VObject kvs) =
     VObject (map (\<lambda>kv. (fst kv, norm (snd kv))) (filter (\<lambda>kv. snd kv \<noteq> VUndefined) kvs))"
| "norm (VStructure sig fs) = VStructure sig (map norm fs)"
| "norm v = v"

fun wire_ok :: "jsval \<Rightarrow> bool" where
  "wire_ok VNull = True"
| "wire_ok (VBool b) = True"
| "wire_ok (VNumber x) = True"
| "wire_ok (VInteger i) = True"
| "wire_ok (VString s) = (length s < 2 ^ 32)"
| "wire_ok (VBytes bs) = (length bs < 2 ^ 32)"
| "wire_ok (VArray xs) = (length xs < 2 ^ 32 \<and> (\<forall>x \<in> set xs. x = VUndefined \<or> wire_ok x))"
| "wire_ok (VObject kvs) =
     (length kvs < 2 ^ 32 \<and> distinct (map fst kvs) \<and> sorted_wrt key_before (map fst kvs) \<and>
      (\<forall>kv \<in> set kvs. fst kv \<noteq> ''__proto__'' \<and> length (fst kv) < 2 ^ 32 \<and>
         (snd kv = VUndefined \<or> wire_ok (snd kv))))"
| "wire_ok (VStructure sig fs) =
     (sig < 2 ^ 8 \<and> length fs < 2 ^ 8 \<and> (\<forall>x \<in> set fs. wire_ok x))"
| "wire_ok v = False"

fun depth :: "jsval \<Rightarrow> nat" where
  "depth (VArray xs) = Suc (fold max (map depth xs) 0)"
| "depth (VObject kvs) = Suc (fold max (map (\<lambda>kv. depth (snd kv)) kvs) 0)"
| "depth (VStructure sig fs) = Suc (fold max (map depth fs) 0)"
| "depth v = 0"

text \<open>
  \<open>packs_to n toStr v bs\<close>: with the bound \<open>n\<close> and the identity as the dehydration hook,
  \<open>packable\<close> returns a closure for \<open>v\<close>, and the closure appends \<open>bs\<close> to the channel.
\<close>

definition packs_to :: "nat \<Rightarrow> conversion \<Rightarrow> jsval \<Rightarrow> byte list \<Rightarrow> bool" where
  "packs_to n toStr v bs \<longleftrightarrow>
     (\<exists>f. (\<forall>s. packable n toStr Inr v s = (Return f, s)) \<and>
          (\<forall>s. byteArraysSupported s \<longrightarrow> f s = (Return (), s\<lparr>ch := ch s @ bs\<rparr>)))"

subsection \<open>Hooks and conversions of the examples\<close>

text \<open>
  A hydration hook that maps every structure to \<^verbatim>\<open>null\<close>, hooks that throw, and string
  conversions that give the empty string.
\<close>

definition hydrate_to_null :: hook where
  "hydrate_to_null s = Inr VNull"



definition no_text :: "jsval \<Rightarrow> string" where
  "no_text v = ''''"

definition empty_text :: conversion where
  "empty_text v = Inr ''''"

section \<open>Properties of the packer\<close>

subsection \<open>Running statements\<close>

lemma seq_emit [simp]: "seq (emit bs # fs) s = seq fs (s\<lparr>ch := ch s @ bs\<rparr>)"
  by (simp add: emit_def)

lemma seq_throwError [simp]: "seq (throwError e # fs) s = (Throw e, s)"
  by (simp add: throwError_def)

declare seq.simps(2) [simp del]

lemmas write_defs =
  writeUInt8_def writeInt8_def writeInt16_def writeInt32_def writeFloat64_def writeBytes_def

lemma be_bytes_simps:
  "be_bytes 1 v = [word_of_int v]"
  "be_bytes (Suc 0) v = [word_of_int v]"
  "be_bytes 2 v = [word_of_int (drop_bit 8 v), word_of_int v]"
  "be_bytes 4 v =
     [word_of_int (drop_bit 24 v), word_of_int (drop_bit 16 v), word_of_int (drop_bit 8 v),
      word_of_int v]"
  "be_bytes 8 v =
     [word_of_int (drop_bit 56 v), word_of_int (drop_bit 48 v), word_of_int (drop_bit 40 v),
      word_of_int (drop_bit 32 v), word_of_int (drop_bit 24 v), word_of_int (drop_bit 16 v),
      word_of_int (drop_bit 8 v), word_of_int v]"
  by (simp_all add: be_bytes_def upt_rec numeral_eq_Suc del: upt_Suc)

lemma and_255_nat: "(n::nat) AND 255 = n mod 256"
  using take_bit_eq_mask[of 8 n] by (simp add: take_bit_eq_mod mask_eq_exp_minus_1)

subsection \<open>Structure headers\<close>

text \<open>
  Claim C2. \<open>packStructHeader\<close> writes, for a field count \<open>n < 16\<close>, the tiny-struct marker
  \<open>0xB0 OR n\<close> and the signature byte; for \<open>16 \<le> n < 256\<close> the marker \<open>STRUCT_8\<close>, the size
  byte and the signature byte; for \<open>256 \<le> n < 65536\<close> the marker \<open>STRUCT_16\<close> and the two
  bytes of the size, and no signature byte; for \<open>n \<ge> 65536\<close> it fails with an error and writes
  nothing.
\<close>

theorem packStructHeader_forms:
  "packStructHeader n sig s =
     (if n < 16 then (Return (), s\<lparr>ch := ch s @ [of_nat (0xB0 OR n), of_nat sig]\<rparr>)
      else if n < 256 then (Return (), s\<lparr>ch := ch s @ [0xDC, of_nat n, of_nat sig]\<rparr>)
      else if n < 65536 then
        (Return (), s\<lparr>ch := ch s @ [0xDD, of_nat (n div 256), of_nat (n mod 256)]\<rparr>)
      else (Throw (newError (''Structures of size '' @ decimal n @ '' are not supported'') None),
            s))"
  by (simp add: packStructHeader_def write_defs marker_defs throwError_def)

theorem packStructHeader_forms_witness:
  "packStructHeader 2 0x4E \<lparr>ch = [], byteArraysSupported = True\<rparr> =
     (Return (), \<lparr>ch = [0xB2, 0x4E], byteArraysSupported = True\<rparr>) \<and>
   packStructHeader 16 0x4E \<lparr>ch = [], byteArraysSupported = True\<rparr> =
     (Return (), \<lparr>ch = [0xDC, 0x10, 0x4E], byteArraysSupported = True\<rparr>) \<and>
   packStructHeader 256 0x4E \<lparr>ch = [], byteArraysSupported = True\<rparr> =
     (Return (), \<lparr>ch = [0xDD, 0x01, 0x00], byteArraysSupported = True\<rparr>) \<and>
   packStructHeader 65536 0x4E \<lparr>ch = [], byteArraysSupported = True\<rparr> =
     (Throw (Neo4jError ''Structures of size 65536 are not supported'' ''ProtocolError''),
      \<lparr>ch = [], byteArraysSupported = True\<rparr>)"
  using packStructHeader_forms [of 2 "0x4E" "\<lparr>ch = [], byteArraysSupported = True\<rparr>"]
    packStructHeader_forms [of 16 "0x4E" "\<lparr>ch = [], byteArraysSupported = True\<rparr>"]
    packStructHeader_forms [of 256 "0x4E" "\<lparr>ch = [], byteArraysSupported = True\<rparr>"]
    packStructHeader_forms [of 65536 "0x4E" "\<lparr>ch = [], byteArraysSupported = True\<rparr>"]
  by (simp add: newError_def PROTOCOL_ERROR_def decimal.simps digit_char_def)

subsection \<open>Integers\<close>

lemma low_byte_of_Integer:
  "k \<le> 24 \<Longrightarrow>
     (word_of_int (drop_bit k (signed_take_bit 31 v)) :: byte) = word_of_int (drop_bit k v)"
  by (rule bit_word_eqI) (auto simp: bit_simps)

lemma high_byte_of_Integer:
  "k \<le> 24 \<Longrightarrow>
     (word_of_int (drop_bit k (signed_take_bit 31 (drop_bit 32 v))) :: byte) =
       word_of_int (drop_bit (32 + k) v)"
  by (rule bit_word_eqI) (auto simp: bit_simps ac_simps)

lemma packInteger_bytes:
  "packInteger x s = (Return (), s\<lparr>ch := ch s @ spec_integer_bytes (sint x)\<rparr>)"
  using low_byte_of_Integer[of 0 "sint x"] low_byte_of_Integer[of 8 "sint x"]
    low_byte_of_Integer[of 16 "sint x"] low_byte_of_Integer[of 24 "sint x"]
    high_byte_of_Integer[of 0 "sint x"] high_byte_of_Integer[of 8 "sint x"]
    high_byte_of_Integer[of 16 "sint x"] high_byte_of_Integer[of 24 "sint x"]
  by (simp add: packInteger_def Let_def greaterThanOrEqual_def lessThan_Integer_def
      Integer_low_def Integer_high_def write_defs be_bytes_simps marker_defs
      spec_integer_bytes_def)

lemma spec_integer_bytes_least:
  "form_contains f v \<Longrightarrow> length (spec_integer_bytes v) \<le> form_length f"
  by (cases f) (auto simp: spec_integer_bytes_def be_bytes_simps)

text \<open>
  Claim C3. For every 64-bit signed integer, \<open>packInteger\<close> writes the form that section 4.2
  selects for its value \<open>v\<close>: one byte for \<open>-16 \<le> v < 128\<close>, \<open>INT_8\<close> and one byte for
  \<open>-128 \<le> v < -16\<close>, \<open>INT_16\<close> and two bytes for \<open>-2^15 \<le> v < 2^15\<close>, \<open>INT_32\<close> and four
  bytes for \<open>-2^31 \<le> v < 2^31\<close>, and \<open>INT_64\<close> and eight bytes otherwise, the value in
  two's complement, big-endian. No form whose range contains \<open>v\<close> is shorter. 127 is written as
  \<open>7F\<close>, 128 as \<open>C9 00 80\<close>, -16 as \<open>F0\<close> and -17 as \<open>C8 EF\<close>.
\<close>

theorem packInteger_narrowest:
  "packInteger x s = (Return (), s\<lparr>ch := ch s @ spec_integer_bytes (sint x)\<rparr>) \<and>
   (\<forall>f. form_contains f (sint x) \<longrightarrow> length (spec_integer_bytes (sint x)) \<le> form_length f) \<and>
   packInteger 127 s = (Return (), s\<lparr>ch := ch s @ [0x7F]\<rparr>) \<and>
   packInteger 128 s = (Return (), s\<lparr>ch := ch s @ [0xC9, 0x00, 0x80]\<rparr>) \<and>
   packInteger (- 16) s = (Return (), s\<lparr>ch := ch s @ [0xF0]\<rparr>) \<and>
   packInteger (- 17) s = (Return (), s\<lparr>ch := ch s @ [0xC8, 0xEF]\<rparr>)"
  by (simp add: packInteger_bytes spec_integer_bytes_least)
    (simp add: spec_integer_bytes_def be_bytes_simps)

theorem packInteger_narrowest_witness:
  "form_contains Int16 (sint (128 :: Integer)) \<and>
   length (spec_integer_bytes (sint (128 :: Integer))) \<le> form_length Int16 \<and>
   packInteger 128 \<lparr>ch = [], byteArraysSupported = True\<rparr> =
     (Return (), \<lparr>ch = [0xC9, 0x00, 0x80], byteArraysSupported = True\<rparr>)"
  using packInteger_narrowest [of 128 "\<lparr>ch = [], byteArraysSupported = True\<rparr>"]
  by (simp add: spec_integer_bytes_def be_bytes_simps)

subsection \<open>Sizes in two bytes\<close>

text \<open>
  Claim C9. For a size \<open>256 \<le> n < 65536\<close>, the high size byte that the \<open>STRING_16\<close> branch
  of \<open>packString\<close> and the \<open>MAP_16\<close> branch of \<open>packMapHeader\<close> write, \<open>n div 256\<close> with no
  mask, is below 256 and equals \<open>(n >> 8) AND 0xFF\<close>; the two size bytes are the big-endian
  16-bit form of \<open>n\<close>, which \<open>readUInt16\<close> reads back as \<open>n\<close>.
\<close>

theorem size16_header:
  assumes "256 \<le> n" and "n < 65536"
  shows "n div 256 < 256 \<and> n div 256 = drop_bit 8 n AND 0xFF \<and> n mod 256 = n AND 0xFF \<and>
     packMapHeader n s =
       (Return (),
        s\<lparr>ch := ch s @ [0xD9, of_nat (drop_bit 8 n AND 0xFF), of_nat (n AND 0xFF)]\<rparr>) \<and>
     (length (utf8_encode x) = n \<longrightarrow>
        packString x s =
          (Return (),
           s\<lparr>ch := ch s @ [0xD1, of_nat (drop_bit 8 n AND 0xFF), of_nat (n AND 0xFF)] @
              utf8_encode x\<rparr>)) \<and>
     readUInt16 [of_nat (n div 256), of_nat (n mod 256)] = Inr (n, [])"
proof -
  have hi: "n div 256 < 256" using assms by simp
  have a: "drop_bit 8 n AND 255 = n div 256"
    using hi by (simp add: and_255_nat drop_bit_eq_div)
  have b: "n AND 255 = n mod 256" by (rule and_255_nat)
  have u: "unat (of_nat (n div 256) :: byte) = n div 256"
    "unat (of_nat (n mod 256) :: byte) = n mod 256"
    using hi by (simp_all add: unat_of_nat)
  show ?thesis
    using assms hi
    by (simp add: a b u packMapHeader_def packString_def Let_def write_defs marker_defs)
qed

theorem size16_header_witness:
  "(256::nat) \<le> 300 \<and> (300::nat) < 65536 \<and> (300::nat) div 256 < 256 \<and>
   length (utf8_encode (replicate 300 (CHR ''a''))) = 300 \<and>
   packMapHeader 300 \<lparr>ch = [], byteArraysSupported = True\<rparr> =
     (Return (), \<lparr>ch = [0xD9, 0x01, 0x2C], byteArraysSupported = True\<rparr>) \<and>
   packString (replicate 300 (CHR ''a'')) \<lparr>ch = [], byteArraysSupported = True\<rparr> =
     (Return (),
      \<lparr>ch = [0xD1, 0x01, 0x2C] @ utf8_encode (replicate 300 (CHR ''a'')),
       byteArraysSupported = True\<rparr>)"
  using size16_header [of 300 "\<lparr>ch = [], byteArraysSupported = True\<rparr>"
      "replicate 300 (CHR ''a'')"]
  by (simp add: utf8_encode_def and_255_nat drop_bit_eq_div)

subsection \<open>The byte-array gate\<close>

text \<open>
  Claim C6. After \<open>disableByteArrays\<close>, encoding a byte array fails with a protocol error and
  leaves the channel as it was, whether \<open>packBytes\<close> is called or the closure that
  \<open>packable\<close> returns for the array; \<open>disableByteArrays\<close> itself writes nothing.
\<close>

theorem byte_array_gate:
  "packBytes b (disableByteArrays s) =
     (Throw (Neo4jError
        ''Byte arrays are not supported by the database this driver is connected to''
        PROTOCOL_ERROR), disableByteArrays s) \<and>
   invoke (Suc n) toStr Inr (VBytes b) (disableByteArrays s) =
     (Throw (Neo4jError
        ''Byte arrays are not supported by the database this driver is connected to''
        PROTOCOL_ERROR), disableByteArrays s) \<and>
   ch (disableByteArrays s) = ch s \<and> \<not> byteArraysSupported (disableByteArrays s)"
  by (simp add: packBytes_def disableByteArrays_def throwError_def newError_def invoke_def
      andThen_def)

subsection \<open>What \<open>packable\<close> leaves to its closure\<close>

lemma andThen_simps [simp]:
  "andThen (Return a, s) f = f a s"
  "andThen (Throw e, s) f = (Throw e, s)"
  "andThen (OutOfFuel, s) f = (OutOfFuel, s)"
  by (simp_all add: andThen_def)

lemma snd_andThen:
  "snd r = s \<Longrightarrow> (\<And>a. snd (f a s) = s) \<Longrightarrow> snd (andThen r f) = s"
  by (cases r) (auto simp: andThen_def split: outcome.splits)

lemma packableFields_frame:
  "(\<And>x s. snd (packable n toStr h x s) = s) \<Longrightarrow> snd (packableFields n toStr h xs s) = s"
  by (induction xs arbitrary: s) (auto intro!: snd_andThen)

lemma packable_frame: "snd (packable n toStr h x s) = s"
proof (induction n arbitrary: x s)
  case 0
  show ?case by simp
next
  case (Suc n)
  have fields: "snd (packableFields n toStr h xs s) = s" for xs s
    by (rule packableFields_frame) (rule Suc)
  have iter: "snd (packableIterable n toStr h it s) = s" for it s
  proof (cases it)
    case (Inl msg)
    then show ?thesis by (simp split: sum.splits)
  next
    case (Inr array)
    obtain r s1 where p: "packable n toStr h (VArray array) s = (r, s1)"
      by (cases "packable n toStr h (VArray array) s")
    with Suc[of "VArray array" s] have "s1 = s" by simp
    with p Inr show ?thesis by (cases r) (simp_all split: sum.splits)
  qed
  show ?case
    by (auto simp: fields iter simp del: packableIterable.simps
        split: sum.splits jsval.splits intro!: snd_andThen)
qed

text \<open>
  Claim C10. The call \<open>packable\<close> leaves the packer, and so the channel, as it found it, for
  every value, hook and bound, also where it builds the closures of the fields of a structure:
  whatever is written is written by the closure that it returns.
\<close>

theorem packable_writes_nothing:
  "snd (packable n toStr h x s) = s \<and> snd (packableFields n toStr h xs s) = s"
  by (simp add: packable_frame packableFields_frame)

lemma dehydration_failure_is_deferred:
  assumes "h x = Inl ex"
  shows "packable (Suc n) toStr h x s = (Return (throwError (Thrown ex)), s) \<and>
    (\<forall>s'. throwError (Thrown ex) s' = (Throw (Thrown ex), s')) \<and>
    invoke (Suc n) toStr h x s = (Throw (Thrown ex), s)"
  using assms by (simp add: throwError_def invoke_def)

section \<open>Properties of the unpacker\<close>

subsection \<open>The dispatch on the marker\<close>

declare unpack.simps [simp del] unpackList.simps [simp del] unpackMap.simps [simp del]
  unpackStruct.simps [simp del] unpackStructWithSize.simps [simp del]

lemma bind_Inl [simp]: "bind (Inl e) f = Inl e"
  by (simp add: bind_def)

lemma bind_Inr [simp]: "bind (Inr (a, b)) f = f a b"
  by (simp add: bind_def)

lemma and_15_nat: "(m::nat) AND 15 = m mod 16"
  using take_bit_eq_mask[of 4 m] by (simp add: take_bit_eq_mod mask_eq_exp_minus_1)

lemma and_240_nat:
  assumes "m < 256"
  shows "(m::nat) AND 240 = 16 * (m div 16)"
proof -
  have m: "take_bit 8 m = m" using assms by (simp add: take_bit_nat_eq_self)
  have c: "(240::nat) = push_bit 4 (mask 4)"
    by (simp add: mask_eq_exp_minus_1 push_bit_eq_mult)
  have "take_bit 8 m AND push_bit 4 (mask 4) = push_bit 4 (drop_bit 4 (take_bit 8 m))"
    by (rule bit_eqI) (auto simp: bit_simps)
  then have "m AND 240 = push_bit 4 (drop_bit 4 m)"
    unfolding m c[symmetric] .
  then show ?thesis
    by (simp add: push_bit_eq_mult drop_bit_eq_div mult.commute)
qed

lemma tiny_OR:
  assumes "n < 16"
  shows "(16 * k) OR n = 16 * k + (n::nat)"
proof -
  have n: "take_bit 4 n = n" using assms by (simp add: take_bit_nat_eq_self)
  have "push_bit 4 k AND take_bit 4 n = 0"
    by (rule bit_eqI) (auto simp: bit_simps)
  then have "push_bit 4 k + take_bit 4 n = push_bit 4 k OR take_bit 4 n"
    by (rule disjunctive_add_eq_or)
  then show ?thesis by (simp add: n push_bit_eq_mult mult.commute)
qed

text \<open>The marker read from a byte, and its two halves.\<close>

lemma unat_byte_less: "unat (b :: byte) < 256"
  using unsigned_less[of b] by simp

lemma markerHigh_eq: "unat (b :: byte) AND 240 = 16 * (unat b div 16)"
  by (rule and_240_nat[OF unat_byte_less])

lemma unpack_Cons:
  "unpack U toStr hy (b # buffer) =
     (let marker = unat b; markerHigh = marker AND 240; markerLow = marker AND 15 in
      if marker = NULL then Inr (VNull, buffer)
      else if unpackBoolean marker \<noteq> VNull then Inr (unpackBoolean marker, buffer)
      else bind (unpackNumberOrInteger marker buffer) (\<lambda>numberOrInteger b1.
      if numberOrInteger \<noteq> VNull then
        (case numberOrInteger of
           VInteger i \<Rightarrow>
             if useBigInt U then Inr (toBigInt i, b1)
             else if disableLosslessIntegers U then Inr (toNumberOrInfinity i, b1)
             else Inr (numberOrInteger, b1)
         | _ \<Rightarrow> Inr (numberOrInteger, b1))
      else bind (unpackString marker markerHigh markerLow b1) (\<lambda>string b2.
      if string \<noteq> VNull then Inr (string, b2)
      else bind (unpackList U toStr hy marker markerHigh markerLow b2) (\<lambda>list' b3.
      if list' \<noteq> VNull then Inr (list', b3)
      else bind (unpackByteArray marker b3) (\<lambda>byteArray b4.
      if byteArray \<noteq> VNull then Inr (byteArray, b4)
      else bind (unpackMap U toStr hy marker markerHigh markerLow b4) (\<lambda>map' b5.
      if map' \<noteq> VNull then Inr (map', b5)
      else bind (unpackStruct U toStr hy marker markerHigh markerLow b5) (\<lambda>struct b6.
      if struct \<noteq> VNull then Inr (struct, b6)
      else Inl (newError (''Unknown packed value with marker '' @ hexadecimal marker) None))))))))"
  by (subst unpack.simps) (simp add: Let_def)

lemma unpackNumberOrInteger_none:
  "128 \<le> m \<Longrightarrow> m < 240 \<Longrightarrow> m \<notin> {193, 200, 201, 202, 203} \<Longrightarrow>
     unpackNumberOrInteger m buffer = Inr (VNull, buffer)"
  by (simp add: unpackNumberOrInteger_def unpackInteger_def marker_defs)

lemma unpackString_none:
  "mh \<noteq> 128 \<Longrightarrow> m \<notin> {208, 209, 210} \<Longrightarrow> unpackString m mh ml buffer = Inr (VNull, buffer)"
  by (simp add: unpackString_def marker_defs)

lemma unpackList_none:
  "mh \<noteq> 144 \<Longrightarrow> m \<notin> {212, 213, 214} \<Longrightarrow>
     unpackList U toStr hy m mh ml buffer = Inr (VNull, buffer)"
  by (simp add: unpackList.simps marker_defs)

lemma unpackByteArray_none:
  "m \<notin> {204, 205, 206} \<Longrightarrow> unpackByteArray m buffer = Inr (VNull, buffer)"
  by (simp add: unpackByteArray_def marker_defs)

lemma unpackMap_none:
  "mh \<noteq> 160 \<Longrightarrow> m \<notin> {216, 217, 218} \<Longrightarrow>
     unpackMap U toStr hy m mh ml buffer = Inr (VNull, buffer)"
  by (simp add: unpackMap.simps marker_defs)

lemma unpackStruct_none:
  "mh \<noteq> 176 \<Longrightarrow> m \<notin> {220, 221} \<Longrightarrow>
     unpackStruct U toStr hy m mh ml buffer = Inr (VNull, buffer)"
  by (simp add: unpackStruct.simps marker_defs)

lemma unpackBoolean_none: "m \<notin> {194, 195} \<Longrightarrow> unpackBoolean m = VNull"
  by (simp add: unpackBoolean_def marker_defs)

lemmas none_simps = unpackBoolean_none unpackNumberOrInteger_none unpackString_none
  unpackList_none unpackByteArray_none unpackMap_none unpackStruct_none

lemma unat_marker: "m < 256 \<Longrightarrow> unat (of_nat m :: byte) = m"
  by (simp add: unat_of_nat)

lemma tiny_marker:
  assumes "n < 16" and "k < 16"
  shows "unat (of_nat (16 * k + n) :: byte) = 16 * k + n"
    and "(16 * k + n) AND 240 = 16 * k"
    and "(16 * k + n) AND 15 = n"
proof -
  have lt: "16 * k + n < 256" using assms by simp
  show "unat (of_nat (16 * k + n) :: byte) = 16 * k + n"
    by (rule unat_marker[OF lt])
  show "(16 * k + n) AND 240 = 16 * k"
    using assms by (simp add: and_240_nat[OF lt])
  show "(16 * k + n) AND 15 = n"
    using assms by (simp add: and_15_nat)
qed

lemma unpack_tiny_struct:
  assumes "n < 16"
  shows "unpack U toStr hy (of_nat (176 + n) # buffer) =
    bind (unpackStructWithSize U toStr hy n buffer) (\<lambda>struct b6.
      if struct \<noteq> VNull then Inr (struct, b6)
      else Inl (newError (''Unknown packed value with marker '' @ hexadecimal (176 + n)) None))"
  using assms tiny_marker[of n 11]
  by (simp add: unpack_Cons Let_def none_simps NULL_def unpackStruct.simps TINY_STRUCT_def
      del: of_nat_add)


subsection \<open>Markers that no interpretation takes\<close>

lemma recognized_ranges:
  "m \<le> 127 \<or> (128 \<le> m \<and> m \<le> 143) \<or> (144 \<le> m \<and> m \<le> 159) \<or> (160 \<le> m \<and> m \<le> 175) \<or>
   (176 \<le> m \<and> m \<le> 191) \<or> (240 \<le> m \<and> m \<le> 255) \<Longrightarrow> recognized m"
  unfolding recognized_def by (elim disjE) simp_all

lemma unrecognized_cases:
  assumes "\<not> recognized m" and "m < 256"
  shows "m \<in> {196, 197, 198, 199, 207, 211, 215, 219, 222, 223} \<or> (224 \<le> m \<and> m < 240)"
proof -
  have "\<not> m < 192" using recognized_ranges[of m] assms(1) by linarith
  moreover have "\<not> 240 \<le> m" using recognized_ranges[of m] assms by linarith
  ultimately consider "m \<in> {192..<224}" | "224 \<le> m \<and> m < 240"
    by (cases "m < 224") auto
  then show ?thesis
  proof cases
    case 1
    then have "m = 223 \<or> m = 222 \<or> m = 221 \<or> m = 220 \<or> m = 219 \<or> m = 218 \<or> m = 217 \<or>
        m = 216 \<or> m = 215 \<or> m = 214 \<or> m = 213 \<or> m = 212 \<or> m = 211 \<or> m = 210 \<or> m = 209 \<or>
        m = 208 \<or> m = 207 \<or> m = 206 \<or> m = 205 \<or> m = 204 \<or> m = 203 \<or> m = 202 \<or> m = 201 \<or>
        m = 200 \<or> m = 199 \<or> m = 198 \<or> m = 197 \<or> m = 196 \<or> m = 195 \<or> m = 194 \<or> m = 193 \<or>
        m = 192"
      by (simp add: atLeastLessThan_nat_numeral)
    with assms(1) show ?thesis
      unfolding recognized_def by (elim disjE) simp_all
  next
    case 2
    then show ?thesis by simp
  qed
qed

lemma high_of:
  assumes "m < 256" and "16 * k \<le> m" and "m < 16 * k + 16"
  shows "m AND 240 = 16 * (k::nat)"
proof -
  have "m div 16 = k" using assms(2,3) by (intro div_nat_eqI) simp_all
  then show ?thesis by (simp add: and_240_nat[OF assms(1)])
qed

lemma unknown_marker_error:
  assumes "\<not> recognized (unat b)"
  shows "unpack U toStr hy (b # buffer) = Inl (unknownMarker (unat b))"
proof -
  let ?m = "unat b"
  have lt: "?m < 256" by (rule unat_byte_less)
  from unrecognized_cases[OF assms lt]
  consider (c) "?m \<in> {196, 197, 198, 199, 207}" | (d) "?m \<in> {211, 215, 219, 222, 223}"
    | (e) "224 \<le> ?m" "?m < 240" by blast
  then show ?thesis
  proof cases
    case c
    then have "?m AND 240 = 192" using high_of[of ?m 12] by auto
    with c show ?thesis
      by (auto simp: unpack_Cons Let_def none_simps NULL_def unknownMarker_def)
  next
    case d
    then have "?m AND 240 = 208" using high_of[of ?m 13] by auto
    with d show ?thesis
      by (auto simp: unpack_Cons Let_def none_simps NULL_def unknownMarker_def)
  next
    case e
    then have "?m AND 240 = 224" using high_of[of ?m 14] by auto
    with e show ?thesis
      by (auto simp: unpack_Cons Let_def none_simps NULL_def unknownMarker_def)
  qed
qed

lemma digit_char_inj: "a < 16 \<Longrightarrow> b < 16 \<Longrightarrow> digit_char a = digit_char b \<Longrightarrow> a = b"
  unfolding digit_char_def
  by (subst (asm) nth_eq_iff_index_eq) simp_all

lemma hexadecimal_length1: "length (hexadecimal n) = 1 \<longleftrightarrow> n < 16"
proof (cases "n < 16")
  case True
  then show ?thesis by (simp add: hexadecimal.simps)
next
  case False
  have "hexadecimal (n div 16) \<noteq> []" by (subst hexadecimal.simps) simp
  with False show ?thesis by (subst hexadecimal.simps) simp
qed

lemma hexadecimal_inj: "hexadecimal n = hexadecimal m \<Longrightarrow> n = m"
proof (induction n arbitrary: m rule: hexadecimal.induct)
  case (1 n)
  show ?case
  proof (cases "n < 16")
    case True
    with 1(2) have "m < 16" using hexadecimal_length1[of m] hexadecimal_length1[of n] by simp
    with True 1(2) show ?thesis by (auto simp: hexadecimal.simps dest: digit_char_inj)
  next
    case False
    with 1(2) have m: "\<not> m < 16" using hexadecimal_length1[of m] hexadecimal_length1[of n] by simp
    from 1(2) False m have e: "hexadecimal (n div 16) @ [digit_char (n mod 16)] =
        hexadecimal (m div 16) @ [digit_char (m mod 16)]"
      by (simp add: hexadecimal.simps[of n] hexadecimal.simps[of m])
    then have "n div 16 = m div 16" using 1(1)[OF False] by simp
    moreover from e have "digit_char (n mod 16) = digit_char (m mod 16)" by simp
    then have "n mod 16 = m mod 16" by (rule digit_char_inj[rotated 2]) simp_all
    ultimately show ?thesis by (metis div_mult_mod_eq)
  qed
qed

lemma unknownMarker_inj [simp]: "unknownMarker n = unknownMarker m \<longleftrightarrow> n = m"
  by (auto simp: unknownMarker_def newError_def dest: hexadecimal_inj)

lemma unknownMarker_neq [simp]:
  "readError \<noteq> unknownMarker m" "unknownMarker m \<noteq> readError"
  "Thrown ex \<noteq> unknownMarker m" "unknownMarker m \<noteq> Thrown ex"
  by (simp_all add: unknownMarker_def readError_def newError_def)

lemma bind_eq_Inl:
  "bind r f = Inl e \<longleftrightarrow> r = Inl e \<or> (\<exists>a b. r = Inr (a, b) \<and> f a b = Inl e)"
  by (cases r) (auto simp: bind_def)

lemma bind_eq_Inr:
  "bind r f = Inr p \<longleftrightarrow> (\<exists>a b. r = Inr (a, b) \<and> f a b = Inr p)"
  by (cases r) (auto simp: bind_def)

lemma readUInt8_less: "readUInt8 buffer = Inr (m, b) \<Longrightarrow> m < 256"
  by (cases buffer) (auto simp: unat_byte_less)

lemma unpackBoolean_VNull: "unpackBoolean m = VNull \<Longrightarrow> m \<noteq> 194 \<and> m \<noteq> 195"
  by (auto simp: unpackBoolean_def marker_defs split: if_splits)

lemma unpackNumberOrInteger_VNull:
  "unpackNumberOrInteger m b = Inr (VNull, b') \<Longrightarrow>
     128 \<le> m \<and> (m < 240 \<or> 256 \<le> m) \<and> m \<notin> {193, 200, 201, 202, 203}"
  by (auto simp: unpackNumberOrInteger_def unpackInteger_def marker_defs bind_eq_Inr
      split: if_splits)

lemma unpackString_VNull:
  "unpackString m mh ml b = Inr (VNull, b') \<Longrightarrow> mh \<noteq> 128 \<and> m \<notin> {208, 209, 210}"
  by (auto simp: unpackString_def utf8_decode_def marker_defs bind_eq_Inr split: if_splits)

lemma unpackList_VNull:
  "unpackList U toStr hy m mh ml b = Inr (VNull, b') \<Longrightarrow> mh \<noteq> 144 \<and> m \<notin> {212, 213, 214}"
  by (auto simp: unpackList.simps marker_defs bind_eq_Inr split: if_splits)

lemma unpackByteArray_VNull:
  "unpackByteArray m b = Inr (VNull, b') \<Longrightarrow> m \<notin> {204, 205, 206}"
  by (auto simp: unpackByteArray_def marker_defs bind_eq_Inr split: if_splits)

lemma unpackMapWithSize_VObject:
  "unpackMapWithSize U toStr hy n acc b = Inr (v, b') \<Longrightarrow> \<exists>kvs. v = VObject kvs"
  by (induction n arbitrary: acc b) (auto simp: bind_eq_Inr)

lemma unpackMap_VNull:
  "unpackMap U toStr hy m mh ml b = Inr (VNull, b') \<Longrightarrow> mh \<noteq> 160 \<and> m \<notin> {216, 217, 218}"
  by (auto simp: unpackMap.simps marker_defs bind_eq_Inr split: if_splits
      dest: unpackMapWithSize_VObject)

lemma unpackStructWithSize_not_VNull:
  "\<forall>sig fs. hy (VStructure sig fs) \<noteq> Inr VNull \<Longrightarrow> unpackStructWithSize U toStr hy n b \<noteq> Inr (VNull, b')"
  by (auto simp: unpackStructWithSize.simps bind_eq_Inr split: sum.splits)

lemma unpackStruct_VNull:
  "\<forall>sig fs. hy (VStructure sig fs) \<noteq> Inr VNull \<Longrightarrow> unpackStruct U toStr hy m mh ml b = Inr (VNull, b') \<Longrightarrow>
     mh \<noteq> 176 \<and> m \<notin> {220, 221}"
  by (auto simp: unpackStruct.simps marker_defs bind_eq_Inr split: if_splits
      dest: unpackStructWithSize_not_VNull)

lemma all_null_unrecognized:
  assumes "m < 256" and "m \<noteq> NULL" and "unpackBoolean m = VNull"
    and "unpackNumberOrInteger m b0 = Inr (VNull, b1)"
    and "unpackString m (m AND 240) (m AND 15) b1 = Inr (VNull, b2)"
    and "unpackList U toStr hy m (m AND 240) (m AND 15) b2 = Inr (VNull, b3)"
    and "unpackByteArray m b3 = Inr (VNull, b4)"
    and "unpackMap U toStr hy m (m AND 240) (m AND 15) b4 = Inr (VNull, b5)"
    and "unpackStruct U toStr hy m (m AND 240) (m AND 15) b5 = Inr (VNull, b6)"
    and H: "\<forall>sig fs. hy (VStructure sig fs) \<noteq> Inr VNull"
  shows "\<not> recognized m"
proof -
  have h: "m AND 240 = 16 * (m div 16)" by (rule and_240_nat[OF assms(1)])
  note f = unpackBoolean_VNull[OF assms(3)] unpackNumberOrInteger_VNull[OF assms(4)]
    unpackString_VNull[OF assms(5)] unpackList_VNull[OF assms(6)]
    unpackByteArray_VNull[OF assms(7)] unpackMap_VNull[OF assms(8)]
    unpackStruct_VNull[OF H assms(9)]
  define q where "q = m div 16"
  have "128 \<le> m" "q \<noteq> 8" "q \<noteq> 9" "q \<noteq> 10" "q \<noteq> 11"
    using f unfolding h q_def by auto
  moreover have "8 \<le> q"
    using div_le_mono[OF \<open>128 \<le> m\<close>, of 16] by (simp add: q_def)
  ultimately have "12 \<le> q" by linarith
  moreover have "16 * q \<le> m" unfolding q_def by (rule times_div_less_eq_dividend)
  ultimately have "192 \<le> m" by linarith
  moreover have "m < 240" using f assms(1) by simp
  ultimately show ?thesis
    using f assms(2) unfolding recognized_def NULL_def by simp
qed

lemma readUInt8_Inl: "readUInt8 b = Inl e \<Longrightarrow> e = readError"
  by (cases b rule: readUInt8.cases) auto

lemma readInt8_Inl: "readInt8 b = Inl e \<Longrightarrow> e = readError"
  by (cases b rule: readInt8.cases) auto

lemma readUInt16_Inl: "readUInt16 b = Inl e \<Longrightarrow> e = readError"
  by (cases b rule: readUInt16.cases) auto

lemma readInt16_Inl: "readInt16 b = Inl e \<Longrightarrow> e = readError"
  by (cases b rule: readInt16.cases) auto

lemma readUInt32_Inl: "readUInt32 b = Inl e \<Longrightarrow> e = readError"
  by (cases b rule: readUInt32.cases) auto

lemma readInt32_Inl: "readInt32 b = Inl e \<Longrightarrow> e = readError"
  by (cases b rule: readInt32.cases) auto

lemma readFloat64_Inl: "readFloat64 b = Inl e \<Longrightarrow> e = readError"
  by (cases b rule: readFloat64.cases) auto

lemmas reads_Inl = readUInt8_Inl readInt8_Inl readUInt16_Inl readInt16_Inl readUInt32_Inl
  readInt32_Inl readFloat64_Inl

lemma utf8_decode_Inl: "utf8_decode b n = Inl e \<Longrightarrow> e = readError"
  by (auto simp: utf8_decode_def split: if_splits)

lemma unpackNumberOrInteger_Inl: "unpackNumberOrInteger m b = Inl e \<Longrightarrow> e = readError"
  by (auto simp: unpackNumberOrInteger_def unpackInteger_def bind_eq_Inl split: if_splits
      dest: reads_Inl)

lemma unpackString_Inl: "unpackString m mh ml b = Inl e \<Longrightarrow> e = readError"
  by (auto simp: unpackString_def bind_eq_Inl split: if_splits dest: reads_Inl utf8_decode_Inl)

lemma unpackByteArrayWithSize_Inl: "unpackByteArrayWithSize n b = Inl e \<Longrightarrow> e = readError"
  by (induction n arbitrary: b) (auto simp: bind_eq_Inl dest: reads_Inl)

lemma unpackByteArray_Inl: "unpackByteArray m b = Inl e \<Longrightarrow> e = readError"
  by (auto simp: unpackByteArray_def bind_eq_Inl split: if_splits
      dest: reads_Inl unpackByteArrayWithSize_Inl)

lemma unknown_only_unrecognized:
  assumes H: "\<forall>sig fs. hy (VStructure sig fs) \<noteq> Inr VNull"
  shows "unpack U toStr hy buffer = Inl (unknownMarker k) \<Longrightarrow> \<not> recognized k"
    and "unpackList U toStr hy m mh ml buffer = Inl (unknownMarker k) \<Longrightarrow> \<not> recognized k"
    and "unpackListWithSize U toStr hy n buffer = Inl (unknownMarker k) \<Longrightarrow> \<not> recognized k"
    and "unpackMap U toStr hy m mh ml buffer = Inl (unknownMarker k) \<Longrightarrow> \<not> recognized k"
    and "unpackMapWithSize U toStr hy n acc buffer = Inl (unknownMarker k) \<Longrightarrow> \<not> recognized k"
    and "unpackStruct U toStr hy m mh ml buffer = Inl (unknownMarker k) \<Longrightarrow> \<not> recognized k"
    and "unpackStructWithSize U toStr hy n buffer = Inl (unknownMarker k) \<Longrightarrow> \<not> recognized k"
  using H
proof (induction U toStr hy buffer and U toStr hy m mh ml buffer
    and U toStr hy n buffer and U toStr hy m mh ml buffer
    and U toStr hy n acc buffer and U toStr hy m mh ml buffer
    and U toStr hy n buffer
    rule: unpack_unpackList_unpackListWithSize_unpackMap_unpackMapWithSize_unpackStruct_unpackStructWithSize.induct)
  case (1 U toStr hydrateStructure buffer)
  note IH = 1(1-3) and prem = 1(4) and H = 1(5)
  from prem obtain a b0 where r: "readUInt8 buffer = Inr (a, b0)"
    by (subst (asm) unpack.simps) (auto simp: bind_eq_Inl dest: reads_Inl)
  have lt: "a < 256" by (rule readUInt8_less[OF r])
  have L: "\<not> recognized k"
    if "a \<noteq> NULL" "unpackBoolean a = VNull"
      "unpackNumberOrInteger a b0 = Inr (VNull, b1)"
      "unpackString a (a AND 240) (a AND 15) b1 = Inr (VNull, b2)"
      "unpackList U toStr hydrateStructure a (a AND 240) (a AND 15) b2 = Inl (unknownMarker k)"
    for b1 b2
    by (rule IH(1)[OF r refl refl that(1) refl _ that(3) _ that(4) _ that(5) H])
      (simp_all add: that)
  have M: "\<not> recognized k"
    if "a \<noteq> NULL" "unpackBoolean a = VNull"
      "unpackNumberOrInteger a b0 = Inr (VNull, b1)"
      "unpackString a (a AND 240) (a AND 15) b1 = Inr (VNull, b2)"
      "unpackList U toStr hydrateStructure a (a AND 240) (a AND 15) b2 = Inr (VNull, b3)"
      "unpackByteArray a b3 = Inr (VNull, b4)"
      "unpackMap U toStr hydrateStructure a (a AND 240) (a AND 15) b4 = Inl (unknownMarker k)"
    for b1 b2 b3 b4
    by (rule IH(2)[OF r refl refl that(1) refl _ that(3) _ that(4) _ that(5) _ that(6) _ that(7) H])
      (simp_all add: that)
  have S: "\<not> recognized k"
    if "a \<noteq> NULL" "unpackBoolean a = VNull"
      "unpackNumberOrInteger a b0 = Inr (VNull, b1)"
      "unpackString a (a AND 240) (a AND 15) b1 = Inr (VNull, b2)"
      "unpackList U toStr hydrateStructure a (a AND 240) (a AND 15) b2 = Inr (VNull, b3)"
      "unpackByteArray a b3 = Inr (VNull, b4)"
      "unpackMap U toStr hydrateStructure a (a AND 240) (a AND 15) b4 = Inr (VNull, b5)"
      "unpackStruct U toStr hydrateStructure a (a AND 240) (a AND 15) b5 = Inl (unknownMarker k)"
    for b1 b2 b3 b4 b5
    by (rule IH(3)[OF r refl refl that(1) refl _ that(3) _ that(4) _ that(5) _ that(6) _ that(7)
          _ that(8) H])
      (simp_all add: that)
  have F: "\<not> recognized a"
    if "a \<noteq> NULL" "unpackBoolean a = VNull"
      "unpackNumberOrInteger a b0 = Inr (VNull, b1)"
      "unpackString a (a AND 240) (a AND 15) b1 = Inr (VNull, b2)"
      "unpackList U toStr hydrateStructure a (a AND 240) (a AND 15) b2 = Inr (VNull, b3)"
      "unpackByteArray a b3 = Inr (VNull, b4)"
      "unpackMap U toStr hydrateStructure a (a AND 240) (a AND 15) b4 = Inr (VNull, b5)"
      "unpackStruct U toStr hydrateStructure a (a AND 240) (a AND 15) b5 = Inr (VNull, b6)"
    for b1 b2 b3 b4 b5 b6
    by (rule all_null_unrecognized[OF lt that H])
  from prem r show ?case
    apply (subst (asm) unpack.simps)
    apply (simp add: Let_def split: if_splits)
    apply (auto simp: bind_eq_Inl split: if_splits jsval.splits
        dest: unpackNumberOrInteger_Inl unpackString_Inl unpackByteArray_Inl)
       apply (blast dest: L)
      apply (blast dest: M)
     apply (blast dest: S)
    apply (simp add: unknownMarker_def newError_def)
    apply (drule hexadecimal_inj)
    apply (frule (7) F)
    apply simp
    done
next
  case (7 U toStr hydrateStructure n "value" buffer)
  from 7(4) show ?case
    by (auto simp: bind_eq_Inl dest: 7(1)[OF _ 7(5)] 7(2)[OF _ _ 7(5)] 7(3)[OF _ _ _ 7(5)])
next
  case (9 U toStr hydrateStructure structSize buffer)
  from 9(2) show ?case
    by (subst (asm) unpackStructWithSize.simps)
      (auto simp: bind_eq_Inl split: sum.splits dest: reads_Inl 9(1)[OF _ _ 9(3)],
        metis sum.exhaust)
qed (auto simp: unpackList.simps unpackMap.simps unpackStruct.simps
    bind_eq_Inl split: if_splits dest: reads_Inl)

lemma hexadecimal_byte:
  "n < 16 \<Longrightarrow> k < 16 \<Longrightarrow> 0 < k \<Longrightarrow> hexadecimal (16 * k + n) = [digit_char k, digit_char n]"
  by (subst hexadecimal.simps) (simp add: hexadecimal.simps[of k])

text \<open>
  Claim C8, as amended. For a marker byte that is not in the table of section 4.1, \<open>unpack\<close>
  raises a protocol error whose message ends with the marker in hexadecimal. Where the hydration
  hook returns \<^verbatim>\<open>null\<close> for no structure, an error of this form that comes out of \<open>unpack\<close>
  never names a marker of the table.
\<close>

theorem unknown_marker:
  "(\<not> recognized (unat b) \<longrightarrow>
      unpack U toStr hy (b # buffer) =
        Inl (Neo4jError (''Unknown packed value with marker '' @ hexadecimal (unat b))
          PROTOCOL_ERROR)) \<and>
   ((\<forall>sig fs. hy (VStructure sig fs) \<noteq> Inr VNull) \<longrightarrow>
      (\<forall>k. unpack U toStr hy buffer =
          Inl (Neo4jError (''Unknown packed value with marker '' @ hexadecimal k) PROTOCOL_ERROR) \<longrightarrow>
        \<not> recognized k))"
  using unknown_marker_error[of b U toStr hy buffer]
    unknown_only_unrecognized(1)[of hy U toStr buffer]
  by (simp add: unknownMarker_def newError_def)

theorem unknown_marker_witness:
  "\<not> recognized (unat (0xC4 :: byte)) \<and>
   unpack \<lparr>disableLosslessIntegers = False, useBigInt = False\<rparr> no_text Inr [0xC4] =
     Inl (Neo4jError ''Unknown packed value with marker c4'' ''ProtocolError'') \<and>
   recognized 0xB0 \<and>
   unpack \<lparr>disableLosslessIntegers = False, useBigInt = False\<rparr> no_text Inr [0xB0, 0x4E] \<noteq>
     Inl (Neo4jError ''Unknown packed value with marker b0'' ''ProtocolError'')"
proof -
  have 1: "\<not> recognized (unat (0xC4 :: byte))" by (simp add: recognized_def)
  have 2: "recognized 0xB0" by (simp add: recognized_def)
  have 3: "\<forall>sig fs. (Inr :: hook) (VStructure sig fs) \<noteq> Inr VNull" by simp
  have h1: "hexadecimal 196 = ''c4''"
    using hexadecimal_byte[of 4 12] by (simp add: digit_char_def)
  have h2: "hexadecimal 0xB0 = ''b0''"
    using hexadecimal_byte[of 0 11] by (simp add: digit_char_def)
  from unknown_marker[of "0xC4" "\<lparr>disableLosslessIntegers = False, useBigInt = False\<rparr>" no_text
      Inr "[]"] 1
  have a: "unpack \<lparr>disableLosslessIntegers = False, useBigInt = False\<rparr> no_text Inr [0xC4] =
     Inl (Neo4jError ''Unknown packed value with marker c4'' ''ProtocolError'')"
    by (simp add: h1 PROTOCOL_ERROR_def)
  from unknown_marker[of "0xC4" "\<lparr>disableLosslessIntegers = False, useBigInt = False\<rparr>" no_text
      Inr "[0xB0, 0x4E]"] 2 3
  have b: "unpack \<lparr>disableLosslessIntegers = False, useBigInt = False\<rparr> no_text Inr [0xB0, 0x4E] \<noteq>
     Inl (Neo4jError ''Unknown packed value with marker b0'' ''ProtocolError'')"
    using h2 by (auto simp: PROTOCOL_ERROR_def)
  from 1 a 2 b show ?thesis by simp
qed

text \<open>
  With a hydration hook that returns \<^verbatim>\<open>null\<close>, the tiny-struct marker \<open>B0\<close> reaches the error:
  \<open>unpack\<close> takes the \<^verbatim>\<open>null\<close> of the hook for "not a structure".
\<close>

theorem recognized_marker_unknown_error:
  "recognized (unat (0xB0 :: byte)) \<and>
   unpack \<lparr>disableLosslessIntegers = False, useBigInt = False\<rparr> no_text hydrate_to_null
     [0xB0, 0x4E] =
     Inl (Neo4jError ''Unknown packed value with marker b0'' ''ProtocolError'')"
proof -
  have h2: "hexadecimal 176 = ''b0''"
    using hexadecimal_byte[of 0 11] by (simp add: digit_char_def)
  show ?thesis
    using unpack_tiny_struct[of 0 "\<lparr>disableLosslessIntegers = False, useBigInt = False\<rparr>"
        no_text hydrate_to_null "[0x4E]"]
    by (simp add: recognized_def unpackStructWithSize.simps hydrate_to_null_def newError_def
        PROTOCOL_ERROR_def h2)
qed

subsection \<open>The integer policy\<close>

lemma number_marker:
  "unpackNumberOrInteger m buffer = Inr (v, rest) \<Longrightarrow> v \<noteq> VNull \<Longrightarrow>
     m \<noteq> NULL \<and> unpackBoolean m = VNull"
  by (auto simp: unpackNumberOrInteger_def unpackInteger_def unpackBoolean_def marker_defs
      split: if_splits)

lemma unpack_integer:
  assumes "unpackNumberOrInteger (unat b) buffer = Inr (VInteger i, rest)"
  shows "unpack U toStr hy (b # buffer) =
    Inr (if useBigInt U then toBigInt i
         else if disableLosslessIntegers U then toNumberOrInfinity i
         else VInteger i, rest)"
  using assms number_marker[OF assms]
  by (simp add: unpack_Cons Let_def)

lemma unpack_float:
  assumes "unat b = FLOAT_64" and "readFloat64 buffer = Inr (x, rest)"
  shows "unpack U toStr hy (b # buffer) = Inr (VNumber x, rest)"
  using assms
  by (simp add: unpack_Cons Let_def unpackNumberOrInteger_def unpackBoolean_def marker_defs)

text \<open>
  Claim C5. Where the marker decodes as an integer, \<open>unpack\<close> returns it by the flags, in this
  order: with \<open>useBigInt\<close> the big integer of the same value; else with
  \<open>disableLosslessIntegers\<close> the host number, an infinity where the value is outside of the safe
  range; else the \<open>Integer\<close> itself. What the marker \<open>FLOAT_64\<close> decodes to is returned as the
  host number it is, whatever the flags.
\<close>

theorem integer_policy:
  "(unpackNumberOrInteger (unat b) buffer = Inr (VInteger i, rest) \<longrightarrow>
      unpack U toStr hy (b # buffer) =
        Inr (if useBigInt U then VBigInt (sint i)
             else if disableLosslessIntegers U then
               (if sint i < - (2 ^ 53 - 1) then VNumber NEGATIVE_INFINITY
                else if 2 ^ 53 - 1 < sint i then VNumber POSITIVE_INFINITY
                else VNumber (double_of_int (sint i)))
             else VInteger i, rest)) \<and>
   (unat b = FLOAT_64 \<and> readFloat64 buffer = Inr (x, rest) \<longrightarrow>
      unpack U toStr hy (b # buffer) = Inr (VNumber x, rest))"
  using unpack_integer[of b buffer i rest U toStr hy] unpack_float[of b buffer x rest U toStr hy]
  by (simp add: toBigInt_def toNumberOrInfinity_def)

theorem integer_policy_witness:
  "unpackNumberOrInteger (unat (0xF0 :: byte)) [] = Inr (VInteger (- 16), []) \<and>
   unpack \<lparr>disableLosslessIntegers = True, useBigInt = True\<rparr> no_text Inr [0xF0] =
     Inr (VBigInt (- 16), []) \<and>
   unpack \<lparr>disableLosslessIntegers = True, useBigInt = False\<rparr> no_text Inr [0xF0] =
     Inr (VNumber 0xC030000000000000, []) \<and>
   unpack \<lparr>disableLosslessIntegers = False, useBigInt = False\<rparr> no_text Inr [0xF0] =
     Inr (VInteger (- 16), []) \<and>
   unat (0xC1 :: byte) = FLOAT_64 \<and>
   readFloat64 [0x3F, 0xF0, 0, 0, 0, 0, 0, 0] = Inr (0x3FF0000000000000, []) \<and>
   unpack \<lparr>disableLosslessIntegers = True, useBigInt = True\<rparr> no_text Inr
     [0xC1, 0x3F, 0xF0, 0, 0, 0, 0, 0, 0] = Inr (VNumber 0x3FF0000000000000, [])"
proof -
  have i: "unpackNumberOrInteger 240 [] = Inr (VInteger (- 16), [])"
    by (simp add: unpackNumberOrInteger_def unpackInteger_def marker_defs int_of_def)
  have "ilog2 16 = 4" by (simp add: ilog2.simps)
  then have d: "double_of_int (- 16) = 0xC030000000000000"
    unfolding double_of_int_def Let_def by simp
  have f: "FLOAT_64 = 193" by (simp add: FLOAT_64_def)
  show ?thesis
    using integer_policy[of "0xF0" "[]" "- 16" "[]"
        "\<lparr>disableLosslessIntegers = True, useBigInt = True\<rparr>" no_text Inr
        "0x3FF0000000000000"]
      integer_policy[of "0xF0" "[]" "- 16" "[]"
        "\<lparr>disableLosslessIntegers = True, useBigInt = False\<rparr>" no_text Inr
        "0x3FF0000000000000"]
      integer_policy[of "0xF0" "[]" "- 16" "[]"
        "\<lparr>disableLosslessIntegers = False, useBigInt = False\<rparr>" no_text Inr
        "0x3FF0000000000000"]
      integer_policy[of "0xC1" "[0x3F, 0xF0, 0, 0, 0, 0, 0, 0]" "- 16" "[]"
        "\<lparr>disableLosslessIntegers = True, useBigInt = True\<rparr>" no_text Inr
        "0x3FF0000000000000"]
    by (simp add: i d f)
qed

subsection \<open>Hooks that throw\<close>


lemma hydration_failure:
  assumes "readUInt8 buffer = Inr (sig, b0)"
    and "unpackListWithSize U toStr hy k b0 = Inr (fs, b1)"
    and "hy (VStructure sig fs) = Inl ex"
  shows "unpackStructWithSize U toStr hy k buffer = Inl (Thrown ex)"
  using assms by (simp add: unpackStructWithSize.simps)

lemma hydration_failure_unpack:
  assumes "k < 16" and "readUInt8 buffer = Inr (sig, b0)"
    and "unpackListWithSize U toStr hy k b0 = Inr (fs, b1)"
    and "hy (VStructure sig fs) = Inl ex"
  shows "unpack U toStr hy (of_nat (176 + k) # buffer) = Inl (Thrown ex)"
  using hydration_failure[OF assms(2-4)]
  by (simp add: unpack_tiny_struct[OF assms(1)] del: of_nat_add)







section \<open>Encoding and decoding again\<close>

subsection \<open>Sizes and numbers written and read back\<close>

lemma horner_nat:
  "take_bit m (drop_bit (k + 8) n) * 256 + take_bit 8 (drop_bit k n) =
     take_bit (m + 8) (drop_bit k (n::nat))"
proof -
  have "drop_bit (k + 8) n = drop_bit k n div 256"
    by (simp add: drop_bit_eq_div power_add div_mult2_eq)
  then show ?thesis
    using mod_mult2_eq[of "drop_bit k n" 256 "2 ^ m"]
    by (simp add: take_bit_eq_mod power_add mult.commute)
qed

lemma horner_int:
  "take_bit m (drop_bit (k + 8) v) * 256 + take_bit 8 (drop_bit k v) =
     take_bit (m + 8) (drop_bit k (v::int))"
proof -
  have "drop_bit (k + 8) v = drop_bit k v div 256"
    by (simp add: drop_bit_eq_div power_add flip: zdiv_zmult2_eq)
  then show ?thesis
    using zmod_zmult2_eq[of "2 ^ m" "drop_bit k v" 256]
    by (simp add: take_bit_eq_mod power_add mult.commute)
qed


lemma unat_be_byte:
  "unat (word_of_int (drop_bit j (int n)) :: byte) = take_bit 8 (drop_bit j n)"
proof -
  have "(word_of_int (drop_bit j (int n)) :: byte) = of_nat (drop_bit j n)"
    by (simp add: drop_bit_of_nat)
  then show ?thesis by (simp add: unsigned_of_nat)
qed

lemma uint_be_byte: "uint (word_of_int v :: byte) = take_bit 8 v"
  by (simp add: uint_word_of_int_eq)

lemma unat_byte_of_int: "unat (word_of_int (int m) :: byte) = m mod 256"
  by (simp add: unat_of_nat)

lemma unat_byte_div: "unat (word_of_int (int n div int k) :: byte) = n div k mod 256"
  using unat_byte_of_int[of "n div k"] by (simp add: zdiv_int)

lemma be_bytes_size:
  "be_bytes 1 (int n) = [of_nat n]"
  "be_bytes (Suc 0) (int n) = [of_nat n]"
  "be_bytes 2 (int n) = [of_nat ((n div 256) mod 256), of_nat (n mod 256)]"
  "be_bytes 4 (int n) =
     [of_nat ((n div 16777216) mod 256), of_nat ((n div 65536) mod 256),
      of_nat ((n div 256) mod 256), of_nat (n mod 256)]"
  unfolding be_bytes_simps
  using unat_byte_div[of n 256] unat_byte_div[of n 65536] unat_byte_div[of n 16777216]
  by (simp_all add: word_unat_eq_iff unat_of_nat drop_bit_eq_div)

lemma readUInt8_size: "n < 256 \<Longrightarrow> readUInt8 (be_bytes 1 (int n) @ rest) = Inr (n, rest)"
  by (simp add: be_bytes_size unat_of_nat)

lemma readUInt16_size:
  assumes "n < 65536"
  shows "readUInt16 (be_bytes 2 (int n) @ rest) = Inr (n, rest)"
proof -
  have "n div 256 mod 256 * 256 + n mod 256 = n"
    using horner_nat[of 8 0 n] assms
    by (simp add: take_bit_eq_mod drop_bit_eq_div)
  then show ?thesis by (simp add: be_bytes_size unat_of_nat)
qed

lemma readUInt32_size:
  assumes "n < 4294967296"
  shows "readUInt32 (be_bytes 4 (int n) @ rest) = Inr (n, rest)"
proof -
  have d: "n div 16777216 mod 256 = n div 16777216" using assms by simp
  have "((n div 16777216 mod 256 * 256 + n div 65536 mod 256) * 256 + n div 256 mod 256) * 256 +
      n mod 256 = n"
    using horner_nat[of 8 16 n] horner_nat[of 16 8 n] horner_nat[of 24 0 n] assms
    unfolding d by (simp add: take_bit_eq_mod drop_bit_eq_div)
  then show ?thesis using d by (simp add: be_bytes_size unat_of_nat)
qed

lemma readInt8_value:
  "- 128 \<le> v \<Longrightarrow> v < 128 \<Longrightarrow> readInt8 (be_bytes 1 v @ rest) = Inr (v, rest)"
  using signed_take_bit_int_eq_self[of 7 v]
  by (simp add: be_bytes_simps sint_sbintrunc')

lemma readInt16_value:
  assumes "- 32768 \<le> v" and "v < 32768"
  shows "readInt16 (be_bytes 2 v @ rest) = Inr (v, rest)"
proof -
  have "signed_take_bit 15 (take_bit 16 v) = v"
    using assms signed_take_bit_int_eq_self[of 15 v] by (simp add: signed_take_bit_take_bit)
  then show ?thesis
    using horner_int[of 8 0 v] by (simp add: be_bytes_simps uint_be_byte)
qed

lemma readInt32_bits:
  "readInt32 (be_bytes 4 v @ rest) = Inr (signed_take_bit 31 v, rest)"
proof -
  have "signed_take_bit 31 (take_bit 32 v) = signed_take_bit 31 v"
    by (simp add: signed_take_bit_take_bit)
  then show ?thesis
    using horner_int[of 8 16 v] horner_int[of 16 8 v] horner_int[of 24 0 v]
    by (simp add: be_bytes_simps uint_be_byte)
qed

lemma readInt32_value:
  "- 2147483648 \<le> v \<Longrightarrow> v < 2147483648 \<Longrightarrow> readInt32 (be_bytes 4 v @ rest) = Inr (v, rest)"
  using signed_take_bit_int_eq_self[of 31 v] by (simp add: readInt32_bits)

lemma be_bytes_8: "be_bytes 8 v = be_bytes 4 (drop_bit 32 v) @ be_bytes 4 v"
  by (simp add: be_bytes_simps drop_bit_drop_bit)

lemma new_Integer_halves:
  "new_Integer (signed_take_bit 31 (sint i)) (signed_take_bit 31 (drop_bit 32 (sint i))) = i"
proof -
  let ?s = "sint i"
  have lo: "take_bit 32 (signed_take_bit 31 ?s) = take_bit 32 ?s"
    by (simp add: take_bit_signed_take_bit)
  have "- (2 ^ 63) \<le> ?s" "?s < 2 ^ 63"
    using sint_ge[of i] sint_lt[of i] by simp_all
  then have "- (2 ^ 31) \<le> drop_bit 32 ?s" "drop_bit 32 ?s < 2 ^ 31"
    by (simp_all add: drop_bit_eq_div)
  then have hi: "signed_take_bit 31 (drop_bit 32 ?s) = drop_bit 32 ?s"
    by (rule signed_take_bit_int_eq_self)
  have "new_Integer (signed_take_bit 31 ?s) (signed_take_bit 31 (drop_bit 32 ?s)) = word_of_int ?s"
    by (simp only: new_Integer_def lo hi bits_ident)
  then show ?thesis by simp
qed

lemma readFloat64_bits: "readFloat64 (be_bytes 8 (uint x) @ rest) = Inr (x, rest)"
proof -
  note h = horner_int[of 8 48 "uint x", simplified] horner_int[of 16 40 "uint x", simplified]
    horner_int[of 24 32 "uint x", simplified] horner_int[of 32 24 "uint x", simplified]
    horner_int[of 40 16 "uint x", simplified] horner_int[of 48 8 "uint x", simplified]
    horner_int[of 56 0 "uint x", simplified]
  have "readFloat64 (be_bytes 8 (uint x) @ rest) = Inr (word_of_int (take_bit 64 (uint x)), rest)"
    by (simp only: be_bytes_simps append_Cons append_Nil readFloat64.simps uint_be_byte h)
  moreover have "take_bit 64 (uint x) = uint x"
    using uint_lt2p[of x] by (simp add: take_bit_int_eq_self)
  ultimately show ?thesis by simp
qed

subsection \<open>What the packer writes\<close>

lemma tiny_OR_markers:
  assumes "n < 16"
  shows "TINY_STRING OR n = 128 + n" "TINY_LIST OR n = 144 + n" "TINY_MAP OR n = 160 + n"
    "TINY_STRUCT OR n = 176 + n"
  using tiny_OR[OF assms, of 8] tiny_OR[OF assms, of 9] tiny_OR[OF assms, of 10]
    tiny_OR[OF assms, of 11]
  by (simp_all add: marker_defs)

lemma high_size_byte: "n < 65536 \<Longrightarrow> n div 256 mod 256 = (n::nat) div 256"
  by simp

lemma packListHeader_bytes:
  "n < 2 ^ 32 \<Longrightarrow>
     packListHeader n s = (Return (), s\<lparr>ch := ch s @ size_header 0x90 0xD4 0xD5 0xD6 n\<rparr>)"
  by (simp add: packListHeader_def size_header_def write_defs be_bytes_size marker_defs
      tiny_OR_markers[unfolded marker_defs])

lemma packMapHeader_bytes:
  "n < 2 ^ 32 \<Longrightarrow>
     packMapHeader n s = (Return (), s\<lparr>ch := ch s @ size_header 0xA0 0xD8 0xD9 0xDA n\<rparr>)"
  by (simp add: packMapHeader_def size_header_def write_defs be_bytes_size marker_defs
      tiny_OR_markers[unfolded marker_defs] high_size_byte)

lemma packString_bytes:
  "length x < 2 ^ 32 \<Longrightarrow>
     packString x s =
       (Return (), s\<lparr>ch := ch s @ size_header 0x80 0xD0 0xD1 0xD2 (length x) @ utf8_encode x\<rparr>)"
  by (simp add: packString_def Let_def size_header_def write_defs be_bytes_size marker_defs
      tiny_OR_markers[unfolded marker_defs] high_size_byte utf8_encode_def)

lemma packBytesHeader_bytes:
  "n < 2 ^ 32 \<Longrightarrow> packBytesHeader n s = (Return (), s\<lparr>ch := ch s @ bytes_header n\<rparr>)"
  by (simp add: packBytesHeader_def bytes_header_def write_defs be_bytes_size marker_defs)

lemma seq_Cons_Return: "f s = (Return (), s') \<Longrightarrow> seq (f # fs) s = seq fs s'"
  by (simp add: seq.simps)

lemma seq_writeInt8:
  "seq (map (\<lambda>b. writeInt8 (sint b)) bs) s = (Return (), s\<lparr>ch := ch s @ bs\<rparr>)"
  by (induction bs arbitrary: s) (simp_all add: writeInt8_def)

lemma packBytes_bytes:
  "byteArraysSupported s \<Longrightarrow> length bs < 2 ^ 32 \<Longrightarrow>
     packBytes bs s = (Return (), s\<lparr>ch := ch s @ bytes_header (length bs) @ bs\<rparr>)"
  by (simp add: packBytes_def seq_Cons_Return[OF packBytesHeader_bytes] seq_writeInt8)

lemma packStructHeader_bytes:
  "n < 2 ^ 8 \<Longrightarrow>
     packStructHeader n sig s = (Return (), s\<lparr>ch := ch s @ struct_header n sig\<rparr>)"
  by (simp add: packStructHeader_def struct_header_def write_defs marker_defs
      tiny_OR_markers[unfolded marker_defs])

lemma ucast_drop_bit_byte:
  "(ucast (drop_bit k (x :: 64 word)) :: byte) = word_of_int (drop_bit k (uint x))"
  by (rule bit_word_eqI) (auto simp: bit_simps)

lemma packFloat_bytes:
  "packFloat x s = (Return (), s\<lparr>ch := ch s @ 0xC1 # be_bytes 8 (uint x)\<rparr>)"
  using ucast_drop_bit_byte[of 0 x]
  by (simp add: packFloat_def write_defs marker_defs be_bytes_simps ucast_drop_bit_byte)

lemma packs_toI:
  assumes "\<And>s. packable n toStr Inr v s = (Return f, s)"
    and "\<And>s. byteArraysSupported s \<Longrightarrow> f s = (Return (), s\<lparr>ch := ch s @ bs\<rparr>)"
  shows "packs_to n toStr v bs"
  using assms unfolding packs_to_def by blast

lemma fold_max_ge: "(a::nat) \<le> fold max ns a"
proof (induction ns arbitrary: a)
  case Nil
  show ?case by simp
next
  case (Cons m ns)
  have "a \<le> max m a" by simp
  also have "\<dots> \<le> fold max ns (max m a)" by (rule Cons)
  finally show ?case by simp
qed

lemma depth_member: "x \<in> set xs \<Longrightarrow> f x \<le> fold max (map f xs) (a::nat)"
proof (induction xs arbitrary: a)
  case Nil
  then show ?case by simp
next
  case (Cons y ys)
  show ?case
  proof (cases "x = y")
    case True
    have "f y \<le> max (f y) a" by simp
    also have "\<dots> \<le> fold max (map f ys) (max (f y) a)" by (rule fold_max_ge)
    finally show ?thesis using True by simp
  next
    case False
    with Cons show ?thesis by simp
  qed
qed

lemma packElements_enc:
  assumes "\<forall>x \<in> set xs. packs_to n toStr (if x = VUndefined then VNull else x) (g x)"
    and "byteArraysSupported s"
  shows "packElements n toStr Inr xs s = (Return (), s\<lparr>ch := ch s @ concat (map g xs)\<rparr>)"
  using assms
proof (induction xs arbitrary: s)
  case Nil
  then show ?case by simp
next
  case (Cons x xs)
  from Cons.prems obtain f where
    f: "\<And>s. packable n toStr Inr (if x = VUndefined then VNull else x) s = (Return f, s)"
      "\<And>s. byteArraysSupported s \<Longrightarrow> f s = (Return (), s\<lparr>ch := ch s @ g x\<rparr>)"
    unfolding packs_to_def by auto
  have "packElements n toStr Inr (x # xs) s =
      packElements n toStr Inr xs (s\<lparr>ch := ch s @ g x\<rparr>)"
    using Cons.prems(2) by (simp add: f)
  also have "\<dots> = (Return (), s\<lparr>ch := ch s @ g x @ concat (map g xs)\<rparr>)"
    using Cons.IH[of "s\<lparr>ch := ch s @ g x\<rparr>"] Cons.prems by simp
  finally show ?case by simp
qed

lemma packEntries_enc:
  assumes "\<forall>kv \<in> set kvs. snd kv \<noteq> VUndefined \<longrightarrow>
      length (fst kv) < 2 ^ 32 \<and> packs_to n toStr (snd kv) (g (snd kv))"
    and "byteArraysSupported s"
  shows "packEntries n toStr Inr kvs s =
    (Return (), s\<lparr>ch := ch s @
       concat (map (\<lambda>kv. (size_header 0x80 0xD0 0xD1 0xD2 (length (fst kv)) @ utf8_encode (fst kv)) @
                     g (snd kv))
         (filter (\<lambda>kv. snd kv \<noteq> VUndefined) kvs))\<rparr>)"
  using assms
proof (induction kvs arbitrary: s)
  case Nil
  then show ?case by simp
next
  case (Cons kv kvs)
  show ?case
  proof (cases "snd kv = VUndefined")
    case True
    then show ?thesis using Cons by simp
  next
    case False
    with Cons.prems obtain f where
      len: "length (fst kv) < 2 ^ 32" and
      f: "\<And>s. packable n toStr Inr (snd kv) s = (Return f, s)"
        "\<And>s. byteArraysSupported s \<Longrightarrow> f s = (Return (), s\<lparr>ch := ch s @ g (snd kv)\<rparr>)"
      unfolding packs_to_def by auto
    let ?k = "size_header 0x80 0xD0 0xD1 0xD2 (length (fst kv)) @ utf8_encode (fst kv)"
    let ?s = "s\<lparr>ch := ch s @ ?k @ g (snd kv)\<rparr>"
    have "packEntries n toStr Inr (kv # kvs) s = packEntries n toStr Inr kvs ?s"
      using False Cons.prems(2) by (simp add: packString_bytes[OF len] f)
    also have "\<dots> = (Return (), ?s\<lparr>ch := ch ?s @
       concat (map (\<lambda>kv. (size_header 0x80 0xD0 0xD1 0xD2 (length (fst kv)) @ utf8_encode (fst kv)) @
                     g (snd kv))
         (filter (\<lambda>kv. snd kv \<noteq> VUndefined) kvs))\<rparr>)"
      using Cons.prems by (intro Cons.IH) simp_all
    finally show ?thesis using False by simp
  qed
qed

lemma packableFields_enc:
  assumes "\<forall>x \<in> set xs. packs_to n toStr x (g x)"
  shows "\<exists>fs. (\<forall>s. packableFields n toStr Inr xs s = (Return fs, s)) \<and> length fs = length xs \<and>
    (\<forall>s. byteArraysSupported s \<longrightarrow> seq fs s = (Return (), s\<lparr>ch := ch s @ concat (map g xs)\<rparr>))"
  using assms
proof (induction xs)
  case Nil
  then show ?case by simp
next
  case (Cons x xs)
  from Cons.prems obtain f where
    f: "\<And>s. packable n toStr Inr x s = (Return f, s)"
      "\<And>s. byteArraysSupported s \<Longrightarrow> f s = (Return (), s\<lparr>ch := ch s @ g x\<rparr>)"
    unfolding packs_to_def by auto
  from Cons obtain fs where
    fs: "\<And>s. packableFields n toStr Inr xs s = (Return fs, s)" "length fs = length xs"
      "\<And>s. byteArraysSupported s \<Longrightarrow> seq fs s = (Return (), s\<lparr>ch := ch s @ concat (map g xs)\<rparr>)"
    by auto
  have "seq (f # fs) s = (Return (), s\<lparr>ch := ch s @ concat (map g (x # xs))\<rparr>)"
    if "byteArraysSupported s" for s
    using that by (simp add: seq_Cons_Return[OF f(2)] fs(3))
  then show ?case
    using f(1) fs(1,2) by (intro exI[of _ "f # fs"]) simp
qed

lemma packable_enc: "wire_ok v \<Longrightarrow> depth v < n \<Longrightarrow> packs_to n toStr v (enc v)"
proof (induction n arbitrary: v)
  case 0
  then show ?case by simp
next
  case (Suc n)
  show ?case
  proof (cases v)
    case VNull
    show ?thesis unfolding VNull
      by (rule packs_toI[where f = "writeUInt8 NULL"]) (simp_all add: write_defs emit_def NULL_def)
  next
    case (VBool b)
    show ?thesis unfolding VBool
      by (rule packs_toI[where f = "writeUInt8 (if b then TRUE else FALSE)"])
        (simp_all add: write_defs emit_def marker_defs)
  next
    case (VNumber x)
    show ?thesis unfolding VNumber
      by (rule packs_toI[where f = "packFloat x"]) (simp_all add: packFloat_bytes)
  next
    case (VInteger i)
    show ?thesis unfolding VInteger
      by (rule packs_toI[where f = "packInteger i"]) (simp_all add: packInteger_bytes)
  next
    case (VString x)
    with Suc.prems have "length x < 2 ^ 32" by simp
    then show ?thesis unfolding VString
      by (intro packs_toI[where f = "packString x"]) (simp_all add: packString_bytes)
  next
    case (VBytes bs)
    with Suc.prems have "length bs < 2 ^ 32" by simp
    then show ?thesis unfolding VBytes
      by (intro packs_toI[where f = "packBytes bs"]) (simp_all add: packBytes_bytes)
  next
    case (VArray xs)
    from Suc.prems have len: "length xs < 2 ^ 32"
      and ok: "\<And>x. x \<in> set xs \<Longrightarrow> x = VUndefined \<or> wire_ok x"
      and d: "fold max (map depth xs) 0 < n"
      unfolding VArray by auto
    let ?g = "\<lambda>x. if x = VUndefined then [0xC0] else enc x"
    have "packs_to n toStr (if x = VUndefined then VNull else x) (?g x)" if "x \<in> set xs" for x
    proof (cases "x = VUndefined")
      case True
      have "packs_to n toStr VNull (enc VNull)" using d by (intro Suc.IH) simp_all
      with True show ?thesis by simp
    next
      case False
      have "depth x < n" using depth_member[OF that, of depth 0] d by simp
      with False ok[OF that] show ?thesis by (simp add: Suc.IH)
    qed
    then have el: "\<forall>x \<in> set xs. packs_to n toStr (if x = VUndefined then VNull else x) (?g x)"
      by blast
    show ?thesis unfolding VArray
      by (rule packs_toI[where f = "\<lambda>s1. andThen (packListHeader (length xs) s1)
              (\<lambda>u. packElements n toStr Inr xs)"])
        (simp_all add: packListHeader_bytes[OF len] packElements_enc[OF el])
  next
    case (VObject kvs)
    let ?kept = "filter (\<lambda>kv. snd kv \<noteq> VUndefined) kvs"
    from Suc.prems have len: "length kvs < 2 ^ 32"
      and ok: "\<And>kv. kv \<in> set kvs \<Longrightarrow>
        length (fst kv) < 2 ^ 32 \<and> (snd kv = VUndefined \<or> wire_ok (snd kv))"
      and d: "fold max (map (\<lambda>kv. depth (snd kv)) kvs) 0 < n"
      unfolding VObject by auto
    have "length ?kept \<le> length kvs" by simp
    then have klen: "length ?kept < 2 ^ 32" using len by (rule le_less_trans)
    have "length (fst kv) < 2 ^ 32 \<and> packs_to n toStr (snd kv) (enc (snd kv))"
      if "kv \<in> set kvs" "snd kv \<noteq> VUndefined" for kv
    proof -
      have "depth (snd kv) < n"
        using depth_member[OF that(1), of "\<lambda>kv. depth (snd kv)" 0] d by simp
      with that ok[OF that(1)] show ?thesis by (simp add: Suc.IH)
    qed
    then have el: "\<forall>kv \<in> set kvs. snd kv \<noteq> VUndefined \<longrightarrow>
        length (fst kv) < 2 ^ 32 \<and> packs_to n toStr (snd kv) (enc (snd kv))"
      by blast
    show ?thesis unfolding VObject
      by (rule packs_toI[where f = "\<lambda>s1. let count = length ?kept in
              andThen (packMapHeader count s1) (\<lambda>u. packEntries n toStr Inr kvs)"])
        (simp_all add: Let_def packMapHeader_bytes[OF klen] packEntries_enc[OF el])
  next
    case (VStructure sig fs)
    from Suc.prems have len: "length fs < 2 ^ 8"
      and ok: "\<And>x. x \<in> set fs \<Longrightarrow> wire_ok x"
      and d: "fold max (map depth fs) 0 < n"
      unfolding VStructure by auto
    have "packs_to n toStr x (enc x)" if "x \<in> set fs" for x
    proof -
      have "depth x < n" using depth_member[OF that, of depth 0] d by simp
      with ok[OF that] show ?thesis by (simp add: Suc.IH)
    qed
    then have "\<forall>x \<in> set fs. packs_to n toStr x (enc x)" by blast
    from packableFields_enc[OF this] obtain cs where
      cs: "\<And>s. packableFields n toStr Inr fs s = (Return cs, s)" "length cs = length fs"
        "\<And>s. byteArraysSupported s \<Longrightarrow>
           seq cs s = (Return (), s\<lparr>ch := ch s @ concat (map enc fs)\<rparr>)"
      by auto
    have h: "packStructHeader (length cs) sig s =
        (Return (), s\<lparr>ch := ch s @ struct_header (length fs) sig\<rparr>)" for s
      using packStructHeader_bytes[OF len, of sig s] by (simp add: cs(2))
    show ?thesis unfolding VStructure
      by (rule packs_toI[where f = "packStruct sig cs"])
        (simp_all add: cs(1) packStruct_def seq_Cons_Return[OF h] cs(3))
  qed (use Suc.prems in simp_all)
qed

lemma invoke_enc:
  assumes "wire_ok v" and "depth v < n" and "byteArraysSupported s"
  shows "invoke n toStr Inr v s = (Return (), s\<lparr>ch := ch s @ enc v\<rparr>)"
  using packable_enc[OF assms(1,2), of toStr] assms(3)
  unfolding packs_to_def invoke_def by auto

subsection \<open>What the unpacker reads\<close>

lemma bind_not_null:
  "(\<And>v b. r = Inr (v, b) \<Longrightarrow> v \<noteq> VNull) \<Longrightarrow>
     bind r (\<lambda>v b. if v \<noteq> VNull then Inr (v, b) else g v b) = r"
  by (cases r) auto

lemma bind_assoc: "bind (bind r f) g = bind r (\<lambda>a b. bind (f a b) g)"
  by (cases r) auto

lemma utf8_decode_not_null:
  "bind (utf8_decode b n) (\<lambda>v b. if v \<noteq> VNull then Inr (v, b) else g v b) = utf8_decode b n"
  by (rule bind_not_null) (auto simp: utf8_decode_def split: if_splits)

lemma size_cases:
  assumes "n < (2::nat) ^ 32"
  obtains (tiny) "n < 16" | (s8) "16 \<le> n" "n < 256" | (s16) "256 \<le> n" "n < 65536"
  | (s32) "65536 \<le> n" "n < 4294967296"
  using assms by (cases "n < 16"; cases "n < 256"; cases "n < 65536") auto

lemma readUInt8_size1:
  "n < 256 \<Longrightarrow> readUInt8 (be_bytes (Suc 0) (int n) @ rest) = Inr (n, rest)"
  using readUInt8_size[of n rest] by simp

lemmas stage_defs = unpackBoolean_def unpackNumberOrInteger_def unpackInteger_def
  unpackString_def unpackByteArray_def unpackList.simps unpackMap.simps unpackStruct.simps

lemma unpack_string_header:
  assumes "n < 2 ^ 32"
  shows "unpack U toStr hy (size_header 0x80 0xD0 0xD1 0xD2 n @ buffer) = utf8_decode buffer n"
  using assms
proof (cases n rule: size_cases)
  case tiny
  then show ?thesis
    using tiny_marker[of n 8]
    by (simp add: size_header_def unpack_Cons Let_def none_simps NULL_def unpackString_def
        TINY_STRING_def utf8_decode_not_null del: of_nat_add)
next
  case s8
  then show ?thesis
    by (simp add: size_header_def unpack_Cons Let_def stage_defs marker_defs readUInt8_size1
        utf8_decode_not_null)
next
  case s16
  then show ?thesis
    by (simp add: size_header_def unpack_Cons Let_def stage_defs marker_defs readUInt16_size
        utf8_decode_not_null)
next
  case s32
  then show ?thesis
    by (simp add: size_header_def unpack_Cons Let_def stage_defs marker_defs readUInt32_size
        utf8_decode_not_null)
qed

lemma list_not_null:
  "bind (bind r (\<lambda>vs b. Inr (VArray vs, b))) (\<lambda>v b. if v \<noteq> VNull then Inr (v, b) else g v b) =
     bind r (\<lambda>vs b. Inr (VArray vs, b))"
  by (rule bind_not_null) (cases r, auto)

lemma bytes_not_null:
  "bind (bind r (\<lambda>vs b. Inr (VBytes vs, b))) (\<lambda>v b. if v \<noteq> VNull then Inr (v, b) else g v b) =
     bind r (\<lambda>vs b. Inr (VBytes vs, b))"
  by (rule bind_not_null) (cases r, auto)

lemma map_not_null:
  "bind (unpackMapWithSize U toStr hy n acc buffer)
      (\<lambda>v b. if v \<noteq> VNull then Inr (v, b) else g v b) =
     unpackMapWithSize U toStr hy n acc buffer"
  by (rule bind_not_null) (auto dest: unpackMapWithSize_VObject)

lemma unpack_list_header:
  assumes "n < 2 ^ 32"
  shows "unpack U toStr hy (size_header 0x90 0xD4 0xD5 0xD6 n @ buffer) =
    bind (unpackListWithSize U toStr hy n buffer) (\<lambda>vs b. Inr (VArray vs, b))"
  using assms
proof (cases n rule: size_cases)
  case tiny
  then show ?thesis
    using tiny_marker[of n 9]
    by (simp add: size_header_def unpack_Cons Let_def none_simps NULL_def unpackList.simps
        TINY_LIST_def list_not_null del: of_nat_add)
next
  case s8
  then show ?thesis
    by (simp add: size_header_def unpack_Cons Let_def stage_defs marker_defs readUInt8_size1
        list_not_null)
next
  case s16
  then show ?thesis
    by (simp add: size_header_def unpack_Cons Let_def stage_defs marker_defs readUInt16_size
        list_not_null)
next
  case s32
  then show ?thesis
    by (simp add: size_header_def unpack_Cons Let_def stage_defs marker_defs readUInt32_size
        list_not_null)
qed

lemma unpack_map_header:
  assumes "n < 2 ^ 32"
  shows "unpack U toStr hy (size_header 0xA0 0xD8 0xD9 0xDA n @ buffer) =
    unpackMapWithSize U toStr hy n [] buffer"
  using assms
proof (cases n rule: size_cases)
  case tiny
  then show ?thesis
    using tiny_marker[of n 10]
    by (simp add: size_header_def unpack_Cons Let_def none_simps NULL_def unpackMap.simps
        TINY_MAP_def map_not_null del: of_nat_add)
next
  case s8
  then show ?thesis
    by (simp add: size_header_def unpack_Cons Let_def stage_defs marker_defs readUInt8_size1
        map_not_null)
next
  case s16
  then show ?thesis
    by (simp add: size_header_def unpack_Cons Let_def stage_defs marker_defs readUInt16_size
        map_not_null)
next
  case s32
  then show ?thesis
    by (simp add: size_header_def unpack_Cons Let_def stage_defs marker_defs readUInt32_size
        map_not_null)
qed

lemma unpack_bytes_header:
  assumes "n < 2 ^ 32"
  shows "unpack U toStr hy (bytes_header n @ buffer) =
    bind (unpackByteArrayWithSize n buffer) (\<lambda>vs b. Inr (VBytes vs, b))"
  using assms
proof (cases n rule: size_cases)
  case tiny
  then show ?thesis
    by (simp add: bytes_header_def unpack_Cons Let_def stage_defs marker_defs readUInt8_size1
        bytes_not_null)
next
  case s8
  then show ?thesis
    by (simp add: bytes_header_def unpack_Cons Let_def stage_defs marker_defs readUInt8_size1
        bytes_not_null)
next
  case s16
  then show ?thesis
    by (simp add: bytes_header_def unpack_Cons Let_def stage_defs marker_defs readUInt16_size
        bytes_not_null)
next
  case s32
  then show ?thesis
    by (simp add: bytes_header_def unpack_Cons Let_def stage_defs marker_defs readUInt32_size
        bytes_not_null)
qed

lemma unpackStructWithSize_identity:
  "sig < 256 \<Longrightarrow>
     unpackStructWithSize U toStr Inr n (of_nat sig # buffer) =
       bind (unpackListWithSize U toStr Inr n buffer) (\<lambda>fs b. Inr (VStructure sig fs, b))"
  by (simp add: unpackStructWithSize.simps unat_of_nat)

lemma struct_not_null:
  "bind (bind r (\<lambda>vs b. Inr (VStructure sig vs, b)))
      (\<lambda>v b. if v \<noteq> VNull then Inr (v, b) else g v b) =
     bind r (\<lambda>vs b. Inr (VStructure sig vs, b))"
  by (rule bind_not_null) (cases r, auto)

lemma unpack_struct_header:
  assumes "n < 2 ^ 8" and "sig < 2 ^ 8"
  shows "unpack U toStr Inr (struct_header n sig @ buffer) =
    bind (unpackListWithSize U toStr Inr n buffer) (\<lambda>fs b. Inr (VStructure sig fs, b))"
proof (cases "n < 16")
  case True
  then show ?thesis
    using tiny_marker[of n 11] assms(2)
    by (simp add: struct_header_def unpack_Cons Let_def none_simps NULL_def unpackStruct.simps
        TINY_STRUCT_def unpackStructWithSize_identity struct_not_null del: of_nat_add)
next
  case False
  then show ?thesis
    using assms
    by (simp add: struct_header_def unpack_Cons Let_def stage_defs marker_defs unat_of_nat
        unpackStructWithSize_identity struct_not_null)
qed

lemma unat_tiny_int:
  "0 \<le> v \<Longrightarrow> v < 128 \<Longrightarrow> unat (word_of_int v :: byte) = nat v"
  "- 16 \<le> v \<Longrightarrow> v < 0 \<Longrightarrow> unat (word_of_int v :: byte) = nat (v + 256)"
proof -
  have u: "unat (word_of_int v :: byte) = nat (v mod 256)"
    by (simp add: unat_eq_nat_uint uint_word_of_int_eq take_bit_eq_mod)
  show "0 \<le> v \<Longrightarrow> v < 128 \<Longrightarrow> unat (word_of_int v :: byte) = nat v"
    unfolding u by simp
  assume "- 16 \<le> v" "v < 0"
  then have "(v + 256) mod 256 = v + 256" by (intro mod_pos_pos_trivial) simp_all
  moreover have "(v + 256) mod 256 = v mod 256" by simp
  ultimately have "v mod 256 = v + 256" by simp
  then show "unat (word_of_int v :: byte) = nat (v + 256)"
    unfolding u by simp
qed

lemma unpackInteger_tiny:
  "m < 128 \<Longrightarrow>
     unpackNumberOrInteger m buffer = Inr (VInteger (int_of (int m)), buffer)"
  "240 \<le> m \<Longrightarrow> m < 256 \<Longrightarrow>
     unpackNumberOrInteger m buffer = Inr (VInteger (int_of (int m - 256)), buffer)"
  by (simp_all add: unpackNumberOrInteger_def unpackInteger_def marker_defs)

lemma Integer_of_sint: "int_of (sint i) = i"
  by (simp add: int_of_def)

lemma unpackNumberOrInteger_spec:
  "\<exists>b buffer. spec_integer_bytes (sint i) @ rest = b # buffer \<and>
     unpackNumberOrInteger (unat b) buffer = Inr (VInteger i, rest)"
proof -
  let ?v = "sint i"
  have i: "word_of_int ?v = i" by simp
  consider (pos) "0 \<le> ?v" "?v < 128" | (neg) "- 16 \<le> ?v" "?v < 0"
    | (i8) "- 128 \<le> ?v" "?v < - 16"
    | (i16) "\<not> (- 128 \<le> ?v \<and> ?v < 128)" "- 32768 \<le> ?v" "?v < 32768"
    | (i32) "\<not> (- 32768 \<le> ?v \<and> ?v < 32768)" "- 2147483648 \<le> ?v" "?v < 2147483648"
    | (i64) "\<not> (- 2147483648 \<le> ?v \<and> ?v < 2147483648)"
    by linarith
  then show ?thesis
  proof cases
    case pos
    define b :: byte where "b = word_of_int ?v"
    have u: "unat b = nat ?v" unfolding b_def using pos by (rule unat_tiny_int(1))
    have "unpackNumberOrInteger (unat b) rest = Inr (VInteger (int_of (int (unat b))), rest)"
      using pos by (intro unpackInteger_tiny(1)) (simp add: u)
    moreover have "int (unat b) = ?v" using pos by (simp add: u)
    ultimately have "unpackNumberOrInteger (unat b) rest = Inr (VInteger i, rest)"
      by (simp only: Integer_of_sint)
    moreover have "spec_integer_bytes ?v @ rest = b # rest"
      using pos by (simp add: spec_integer_bytes_def be_bytes_simps b_def)
    ultimately show ?thesis by blast
  next
    case neg
    define b :: byte where "b = word_of_int ?v"
    have u: "unat b = nat (?v + 256)" unfolding b_def using neg by (rule unat_tiny_int(2))
    have "unpackNumberOrInteger (unat b) rest =
        Inr (VInteger (int_of (int (unat b) - 256)), rest)"
      using neg by (intro unpackInteger_tiny(2)) (simp_all add: u)
    moreover have "int (unat b) - 256 = ?v" using neg by (simp add: u)
    ultimately have "unpackNumberOrInteger (unat b) rest = Inr (VInteger i, rest)"
      by (simp only: Integer_of_sint)
    moreover have "spec_integer_bytes ?v @ rest = b # rest"
      using neg by (simp add: spec_integer_bytes_def be_bytes_simps b_def)
    ultimately show ?thesis by blast
  next
    case i8
    then have "readInt8 (be_bytes 1 ?v @ rest) = Inr (?v, rest)"
      by (intro readInt8_value) simp_all
    with i8 show ?thesis
      by (simp add: spec_integer_bytes_def unpackNumberOrInteger_def
          unpackInteger_def marker_defs int_of_def)
  next
    case i16
    then have "readInt16 (be_bytes 2 ?v @ rest) = Inr (?v, rest)"
      by (intro readInt16_value) simp_all
    with i16 show ?thesis
      by (auto simp: spec_integer_bytes_def unpackNumberOrInteger_def
          unpackInteger_def marker_defs int_of_def)
  next
    case i32
    then have "readInt32 (be_bytes 4 ?v @ rest) = Inr (?v, rest)"
      by (intro readInt32_value) simp_all
    with i32 show ?thesis
      by (auto simp: spec_integer_bytes_def unpackNumberOrInteger_def
          unpackInteger_def marker_defs int_of_def)
  next
    case i64
    have "readInt32 (be_bytes 4 (drop_bit 32 ?v) @ be_bytes 4 ?v @ rest) =
        Inr (signed_take_bit 31 (drop_bit 32 ?v), be_bytes 4 ?v @ rest)"
      by (rule readInt32_bits)
    with i64 show ?thesis
      by (auto simp: spec_integer_bytes_def unpackNumberOrInteger_def
          unpackInteger_def marker_defs be_bytes_8 readInt32_bits new_Integer_halves)
  qed
qed

lemma unpack_integer_enc:
  assumes "\<not> useBigInt U" and "\<not> disableLosslessIntegers U"
  shows "unpack U toStr hy (spec_integer_bytes (sint i) @ rest) = Inr (VInteger i, rest)"
proof -
  from unpackNumberOrInteger_spec[of i rest] obtain b buffer where
    b: "spec_integer_bytes (sint i) @ rest = b # buffer"
      "unpackNumberOrInteger (unat b) buffer = Inr (VInteger i, rest)"
    by blast
  show ?thesis
    unfolding b(1) using unpack_integer[OF b(2), of U toStr hy] assms by simp
qed

lemma unpack_float_enc:
  "unpack U toStr hy ((0xC1 # be_bytes 8 (uint x)) @ rest) = Inr (VNumber x, rest)"
  using unpack_float[of "0xC1" "be_bytes 8 (uint x) @ rest" x rest U toStr hy]
  by (simp add: FLOAT_64_def readFloat64_bits)

lemma unpack_null_enc: "unpack U toStr hy ([0xC0] @ rest) = Inr (VNull, rest)"
  by (simp add: unpack_Cons NULL_def)

lemma unpack_bool_enc:
  "unpack U toStr hy ([if b then 0xC3 else 0xC2] @ rest) = Inr (VBool b, rest)"
  by (simp add: unpack_Cons Let_def unpackBoolean_def marker_defs)

lemma utf8_roundtrip:
  "utf8_decode (utf8_encode x @ rest) (length x) = Inr (VString x, rest)"
proof -
  have "char_of (unat (of_nat (of_char c :: nat) :: byte)) = c" for c :: char
  proof -
    have "of_char c < (256 :: nat)" by simp
    then have "unat (of_nat (of_char c :: nat) :: byte) = of_char c"
      by (simp add: unat_of_nat)
    then show ?thesis by simp
  qed
  then show ?thesis
    by (simp add: utf8_decode_def utf8_encode_def comp_def)
qed

lemma unpackByteArrayWithSize_enc:
  "unpackByteArrayWithSize (length bs) (bs @ rest) = Inr (bs, rest)"
  by (induction bs) simp_all

lemma setProperty_fresh:
  assumes "k \<notin> fst ` set ps" and "k \<noteq> ''__proto__''"
    and "\<forall>p \<in> set ps. key_before (fst p) k"
  shows "setProperty ps k v = ps @ [(k, v)]"
  using assms by (simp add: setProperty_def takeWhile_eq_all_conv dropWhile_eq_Nil_conv)

lemma array_index_examples:
  "array_index ''k1'' = None" "array_index ''k2'' = None" "array_index ''k3'' = None"
  "array_index ''a'' = None" "array_index ''b'' = None" "array_index ''2'' = Some 2"
  "array_index ''10'' = Some 10" "array_index ''07'' = None"
  by (simp_all add: array_index_def digit_of_def decimal.simps digit_char_def)

lemma setProperty_examples:
  "setProperty [(''a'', VNull), (''b'', VNull)] ''a'' (VBool True) =
     [(''a'', VBool True), (''b'', VNull)]"
  "setProperty [(''b'', VNull)] ''2'' (VBool True) = [(''2'', VBool True), (''b'', VNull)]"
  "setProperty [(''2'', VNull), (''a'', VNull)] ''10'' (VBool True) =
     [(''2'', VNull), (''10'', VBool True), (''a'', VNull)]"
  "setProperty [(''a'', VNull)] ''__proto__'' (VString ''x'') = [(''a'', VNull)]"
  by (simp_all add: setProperty_def key_before_def array_index_examples)

lemma unpackListWithSize_enc:
  assumes "\<And>x rest. x \<in> set xs \<Longrightarrow> unpack U toStr hy (g x @ rest) = Inr (h x, rest)"
  shows "unpackListWithSize U toStr hy (length xs) (concat (map g xs) @ rest) =
    Inr (map h xs, rest)"
  using assms by (induction xs) simp_all

lemma unpackMapWithSize_enc:
  assumes "\<And>kv rest. kv \<in> set kvs \<Longrightarrow>
      unpack U toStr hy (g (snd kv) @ rest) = Inr (h (snd kv), rest)"
    and "\<And>kv. kv \<in> set kvs \<Longrightarrow> length (fst kv) < 2 ^ 32 \<and> fst kv \<noteq> ''__proto__''"
    and "distinct (map fst acc @ map fst kvs)"
    and "sorted_wrt key_before (map fst acc @ map fst kvs)"
  shows "unpackMapWithSize U toStr hy (length kvs) acc
      (concat (map (\<lambda>kv. (size_header 0x80 0xD0 0xD1 0xD2 (length (fst kv)) @
         utf8_encode (fst kv)) @ g (snd kv)) kvs) @ rest) =
    Inr (VObject (acc @ map (\<lambda>kv. (fst kv, h (snd kv))) kvs), rest)"
  using assms
proof (induction kvs arbitrary: acc)
  case Nil
  then show ?case by simp
next
  case (Cons kv kvs)
  have fresh: "fst kv \<notin> fst ` set acc" using Cons.prems(3) by auto
  have d: "distinct (map fst (acc @ [(fst kv, h (snd kv))]) @ map fst kvs)"
    using Cons.prems(3) by auto
  have o: "sorted_wrt key_before (map fst (acc @ [(fst kv, h (snd kv))]) @ map fst kvs)"
    using Cons.prems(4) by simp
  have before: "\<forall>p \<in> set acc. key_before (fst p) (fst kv)"
    using Cons.prems(4) by (simp add: sorted_wrt_append)
  have len: "length (fst kv) < 2 ^ 32" and proto: "fst kv \<noteq> ''__proto__''"
    using Cons.prems(2)[of kv] by simp_all
  have key: "unpack U toStr hy
      (size_header 0x80 0xD0 0xD1 0xD2 (length (fst kv)) @ utf8_encode (fst kv) @ b) =
      Inr (VString (fst kv), b)" for b
    by (simp add: unpack_string_header[OF len] utf8_roundtrip)
  have val: "unpack U toStr hy (g (snd kv) @ b) = Inr (h (snd kv), b)" for b
    using Cons.prems(1) by simp
  have "unpackMapWithSize U toStr hy (length kvs) (acc @ [(fst kv, h (snd kv))])
      (concat (map (\<lambda>kv. (size_header 0x80 0xD0 0xD1 0xD2 (length (fst kv)) @
         utf8_encode (fst kv)) @ g (snd kv)) kvs) @ rest) =
    Inr (VObject ((acc @ [(fst kv, h (snd kv))]) @ map (\<lambda>kv. (fst kv, h (snd kv))) kvs), rest)"
    using Cons.prems(1,2) d o by (intro Cons.IH) simp_all
  then show ?case
    by (simp add: key val propertyKey_def setProperty_fresh[OF fresh proto before])
qed

lemma unpack_enc:
  assumes U: "\<not> useBigInt U" "\<not> disableLosslessIntegers U"
  shows "wire_ok v \<Longrightarrow> unpack U toStr Inr (enc v @ rest) = Inr (norm v, rest)"
proof (induction v arbitrary: rest)
  case VNull
  show ?case using unpack_null_enc[of U toStr Inr rest] by simp
next
  case (VBool b)
  show ?case using unpack_bool_enc[of U toStr Inr b rest] by simp
next
  case (VNumber x)
  show ?case using unpack_float_enc[of U toStr Inr x rest] by simp
next
  case (VInteger i)
  show ?case by (simp add: unpack_integer_enc[OF U])
next
  case (VString x)
  then have "length x < 2 ^ 32" by simp
  then show ?case by (simp add: unpack_string_header utf8_roundtrip)
next
  case (VBytes bs)
  then have "length bs < 2 ^ 32" by simp
  then show ?case by (simp add: unpack_bytes_header unpackByteArrayWithSize_enc)
next
  case (VArray xs)
  let ?g = "\<lambda>x. if x = VUndefined then [0xC0] else enc x"
  let ?h = "\<lambda>x. if x = VUndefined then VNull else norm x"
  from VArray.prems have len: "length xs < 2 ^ 32"
    and ok: "\<And>x. x \<in> set xs \<Longrightarrow> x = VUndefined \<or> wire_ok x"
    by auto
  have el: "unpack U toStr Inr (?g x @ rest) = Inr (?h x, rest)" if "x \<in> set xs" for x rest
    using VArray.IH[OF that] ok[OF that] unpack_null_enc[of U toStr Inr rest] by auto
  show ?case
    using unpackListWithSize_enc[of xs U toStr Inr ?g ?h rest, OF el]
    by (simp add: unpack_list_header[OF len])
next
  case (VStructure sig fs)
  from VStructure.prems have len: "length fs < 2 ^ 8" and sig: "sig < 2 ^ 8"
    and ok: "\<And>x. x \<in> set fs \<Longrightarrow> wire_ok x"
    by auto
  have el: "unpack U toStr Inr (enc x @ rest) = Inr (norm x, rest)" if "x \<in> set fs" for x rest
    using VStructure.IH[OF that] ok[OF that] by auto
  show ?case
    using unpackListWithSize_enc[of fs U toStr Inr enc norm rest, OF el]
    by (simp add: unpack_struct_header[OF len sig])
next
  case (VObject kvs)
  let ?kept = "filter (\<lambda>kv. snd kv \<noteq> VUndefined) kvs"
  from VObject.prems have len: "length kvs < 2 ^ 32"
    and dist: "distinct (map fst kvs)"
    and ord: "sorted_wrt key_before (map fst kvs)"
    and ok: "\<And>kv. kv \<in> set kvs \<Longrightarrow>
      fst kv \<noteq> ''__proto__'' \<and> length (fst kv) < 2 ^ 32 \<and>
      (snd kv = VUndefined \<or> wire_ok (snd kv))"
    by auto
  have "length ?kept \<le> length kvs" by simp
  then have klen: "length ?kept < 2 ^ 32" using len by (rule le_less_trans)
  have el: "unpack U toStr Inr (enc (snd kv) @ rest) = Inr (norm (snd kv), rest)"
    if "kv \<in> set ?kept" for kv rest
  proof -
    from that have kv: "kv \<in> set kvs" "snd kv \<noteq> VUndefined" by auto
    have "snd kv \<in> Basic_BNFs.snds kv" by (cases kv) simp
    from VObject.IH[OF kv(1) this] ok[OF kv(1)] kv(2) show ?thesis by auto
  qed
  have keys: "length (fst kv) < 2 ^ 32 \<and> fst kv \<noteq> ''__proto__''" if "kv \<in> set ?kept" for kv
    using that ok[of kv] by auto
  have d: "distinct (map fst [] @ map fst ?kept)"
    using dist by (simp add: distinct_map_filter)
  have o: "sorted_wrt key_before (map fst [] @ map fst ?kept)"
    using ord by (simp add: sorted_wrt_map sorted_wrt_filter)
  show ?case
    using unpackMapWithSize_enc[of ?kept U toStr Inr enc norm "[]" rest, OF el keys d o]
    by (simp add: unpack_map_header[OF klen])
qed simp_all

text \<open>
  A map with the key \<^verbatim>\<open>__proto__\<close>, here with the string \<open>x\<close> as its value, is read as the map
  with no entry.
\<close>

lemma proto_key_is_dropped:
  "unpack U toStr hy ([0xA1, 0x89] @ utf8_encode ''__proto__'' @ [0x81] @ utf8_encode ''x'') =
     Inr (VObject [], [])"
proof -
  have "utf8_decode (utf8_encode ''__proto__'' @ b) 9 = Inr (VString ''__proto__'', b)" for b
    using utf8_roundtrip[of "''__proto__''" b] by (simp add: eval_nat_numeral)
  then have k: "unpack U toStr hy (0x89 # utf8_encode ''__proto__'' @ b) =
      Inr (VString ''__proto__'', b)" for b
    using unpack_string_header[of 9 U toStr hy "utf8_encode ''__proto__'' @ b"]
    by (simp add: size_header_def)
  have "utf8_decode (utf8_encode ''x'' @ b) 1 = Inr (VString ''x'', b)" for b
    using utf8_roundtrip[of "''x''" b] by simp
  then have v: "unpack U toStr hy (0x81 # utf8_encode ''x'' @ b) = Inr (VString ''x'', b)" for b
    using unpack_string_header[of 1 U toStr hy "utf8_encode ''x'' @ b"]
    by (simp add: size_header_def)
  show ?thesis
    using unpack_map_header[of 1 U toStr hy
        "0x89 # utf8_encode ''__proto__'' @ 0x81 # utf8_encode ''x''"] v[of "[]"]
    by (simp add: size_header_def k propertyKey_def setProperty_def)
qed

text \<open>
  On the domain \<open>wire_ok\<close>, with a bound above the nesting of the value, the closure of
  \<open>packable\<close> writes \<open>enc v\<close>, and \<open>unpack\<close> reads \<open>norm v\<close> from these bytes and leaves what
  follows them.
\<close>

lemma round_trip:
  assumes "wire_ok v" and "depth v < n" and "byteArraysSupported s"
    and "\<not> useBigInt U" and "\<not> disableLosslessIntegers U"
  shows "\<exists>bs. invoke n toStr Inr v s = (Return (), s\<lparr>ch := ch s @ bs\<rparr>) \<and>
    unpack U toStr' Inr (bs @ rest) = Inr (norm v, rest)"
  using invoke_enc[OF assms(1-3)] unpack_enc[OF assms(4,5,1)] by blast

subsection \<open>Undefined elements and entries\<close>

text \<open>
  Let the packer accept byte arrays and the unpacker have its default flags, the hooks being the
  identity. For a map in the domain, the closure of \<open>packable\<close> writes the map header with the
  number of the entries whose value is not undefined and then, in the order of the keys, the key
  and the value of each of these entries; \<open>unpack\<close> reads from these bytes the map of these
  entries, in this order, an entry whose value is Null among them. For a list in the domain, the
  closure writes the list header with the length of the list and then every element, Null for an
  undefined one; \<open>unpack\<close> reads a list of the same length, with Null where the element was
  undefined. The values come back as \<open>norm\<close> gives them: a value that is no list, map or
  structure comes back as it is, and the same two rules hold in the lists and maps inside.
\<close>

lemma undefined_in_domain:
  assumes "byteArraysSupported s" and "\<not> useBigInt U" and "\<not> disableLosslessIntegers U"
  shows
    "(wire_ok (VObject kvs) \<and> depth (VObject kvs) < n \<longrightarrow>
        (let kept = filter (\<lambda>kv. snd kv \<noteq> VUndefined) kvs;
             bytes = size_header 0xA0 0xD8 0xD9 0xDA (length kept) @
                     concat (map (\<lambda>kv. enc (VString (fst kv)) @ enc (snd kv)) kept)
         in invoke n toStr Inr (VObject kvs) s = (Return (), s\<lparr>ch := ch s @ bytes\<rparr>) \<and>
            unpack U toStr' Inr (bytes @ rest) =
              Inr (VObject (map (\<lambda>kv. (fst kv, norm (snd kv))) kept), rest))) \<and>
     (wire_ok (VArray xs) \<and> depth (VArray xs) < n \<longrightarrow>
        (let bytes = size_header 0x90 0xD4 0xD5 0xD6 (length xs) @
                     concat (map (\<lambda>x. if x = VUndefined then [0xC0] else enc x) xs)
         in invoke n toStr Inr (VArray xs) s = (Return (), s\<lparr>ch := ch s @ bytes\<rparr>) \<and>
            unpack U toStr' Inr (bytes @ rest) =
              Inr (VArray (map (\<lambda>x. if x = VUndefined then VNull else norm x) xs), rest))) \<and>
     ((\<forall>ys. v \<noteq> VArray ys) \<and> (\<forall>ps. v \<noteq> VObject ps) \<and> (\<forall>g fs. v \<noteq> VStructure g fs) \<longrightarrow>
        norm v = v)"
proof -
  have both: "invoke n toStr Inr w s = (Return (), s\<lparr>ch := ch s @ enc w\<rparr>) \<and>
      unpack U toStr' Inr (enc w @ rest) = Inr (norm w, rest)"
    if "wire_ok w" "depth w < n" for w
    using invoke_enc[OF that assms(1)] unpack_enc[OF assms(2,3) that(1)] by simp
  have "norm v = v"
    if "\<forall>ys. v \<noteq> VArray ys" "\<forall>ps. v \<noteq> VObject ps" "\<forall>g fs. v \<noteq> VStructure g fs"
    using that by (cases v) simp_all
  with both[of "VObject kvs"] both[of "VArray xs"] show ?thesis
    by (simp add: Let_def)
qed

lemma undefined_in_domain_example:
  "invoke 2 empty_text Inr (VObject [(''k1'', VInteger 1), (''k2'', VUndefined), (''k3'', VNull)])
       \<lparr>ch = [], byteArraysSupported = True\<rparr> =
     (Return (), \<lparr>ch = [0xA2, 0x82, 0x6B, 0x31, 0x01, 0x82, 0x6B, 0x33, 0xC0],
                  byteArraysSupported = True\<rparr>) \<and>
   unpack \<lparr>disableLosslessIntegers = False, useBigInt = False\<rparr> no_text Inr
       [0xA2, 0x82, 0x6B, 0x31, 0x01, 0x82, 0x6B, 0x33, 0xC0] =
     Inr (VObject [(''k1'', VInteger 1), (''k3'', VNull)], []) \<and>
   invoke 2 empty_text Inr (VArray [VInteger 1, VUndefined, VString ''a''])
       \<lparr>ch = [], byteArraysSupported = True\<rparr> =
     (Return (), \<lparr>ch = [0x93, 0x01, 0xC0, 0x81, 0x61], byteArraysSupported = True\<rparr>) \<and>
   unpack \<lparr>disableLosslessIntegers = False, useBigInt = False\<rparr> no_text Inr
       [0x93, 0x01, 0xC0, 0x81, 0x61] =
     Inr (VArray [VInteger 1, VNull, VString ''a''], [])"
  using undefined_in_domain[of "\<lparr>ch = [], byteArraysSupported = True\<rparr>"
      "\<lparr>disableLosslessIntegers = False, useBigInt = False\<rparr>"
      "[(''k1'', VInteger 1), (''k2'', VUndefined), (''k3'', VNull)]" 2 empty_text no_text "[]"
      "[VInteger 1, VUndefined, VString ''a'']" VNull]
  by (simp add: Let_def size_header_def utf8_encode_def spec_integer_bytes_def be_bytes_simps
      key_before_def array_index_examples)

subsection \<open>A structure of 256 fields\<close>

text \<open>
  The branch of \<open>packStructHeader\<close> for 256 fields and more writes the marker \<open>STRUCT_16\<close> and
  the size, and not the signature, which the two branches for fewer fields write and which
  \<open>unpackStructWithSize\<close> reads for every size. So the first field is read as the signature and
  the fields are one too few.
\<close>

lemma packableFields_nulls:
  "packableFields (Suc n) toStr Inr (replicate k VNull) s =
     (Return (replicate k (writeUInt8 NULL)), s)"
  by (induction k) simp_all

lemma seq_nulls:
  "seq (replicate k (writeUInt8 NULL)) s = (Return (), s\<lparr>ch := ch s @ replicate k 0xC0\<rparr>)"
proof (induction k arbitrary: s)
  case 0
  show ?case by simp
next
  case (Suc k)
  have "seq (replicate (Suc k) (writeUInt8 NULL)) s =
      seq (replicate k (writeUInt8 NULL)) (s\<lparr>ch := ch s @ [0xC0]\<rparr>)"
    by (simp add: writeUInt8_def NULL_def)
  also have "\<dots> = (Return (), s\<lparr>ch := ch s @ [0xC0] @ replicate k 0xC0\<rparr>)"
    by (simp add: Suc)
  finally show ?case by simp
qed

lemma unpackListWithSize_short:
  "k < j \<Longrightarrow> unpackListWithSize U toStr hy j (replicate k 0xC0) = Inl readError"
proof (induction k arbitrary: j)
  case 0
  then obtain j' where "j = Suc j'" by (cases j) auto
  then show ?case by (simp add: unpack.simps)
next
  case (Suc k)
  then obtain j' where j: "j = Suc j'" "k < j'" by (cases j) auto
  show ?case
    using Suc.IH[OF j(2)] unpack_null_enc[of U toStr hy "replicate k 0xC0"]
    by (simp add: j(1))
qed

lemma packStruct_256:
  "packStruct 0x4E (replicate 256 (writeUInt8 NULL)) s =
     (Return (), s\<lparr>ch := ch s @ [0xDD, 0x01, 0x00] @ replicate 256 0xC0\<rparr>)"
proof -
  have h: "packStructHeader 256 0x4E s = (Return (), s\<lparr>ch := ch s @ [0xDD, 0x01, 0x00]\<rparr>)"
    for s
    by (simp add: packStructHeader_def write_defs marker_defs)
  show ?thesis
    by (simp add: packStruct_def seq_Cons_Return[OF h] seq_nulls)
qed

lemma unpack_struct_256:
  "unpack U toStr hy (0xDD # 0x01 # 0x00 # replicate 256 0xC0) = Inl readError"
proof -
  have "replicate 256 (0xC0 :: byte) = 0xC0 # replicate 255 0xC0"
    using replicate_Suc[of 255 "0xC0 :: byte"] by simp
  then show ?thesis
    using unpackListWithSize_short[of 255 256 U toStr hy]
    by (simp add: unpack_Cons Let_def stage_defs marker_defs unpackStructWithSize.simps)
qed

text \<open>
  Claim C1, at the structure with the signature \<open>0x4E\<close> and 256 fields that are Null, with the
  identity as both hooks and the default flags: the closure of \<open>packable\<close> writes \<open>DD 01 00\<close> and
  256 times \<open>C0\<close>, and \<open>unpack\<close> fails on these bytes, the buffer being read to its end, where
  the claim has the structure come back.
\<close>

theorem struct_16_round_trip:
  "invoke 2 empty_text Inr (VStructure 0x4E (replicate 256 VNull))
       \<lparr>ch = [], byteArraysSupported = True\<rparr> =
     (Return (), \<lparr>ch = [0xDD, 0x01, 0x00] @ replicate 256 0xC0, byteArraysSupported = True\<rparr>) \<and>
   unpack \<lparr>disableLosslessIntegers = False, useBigInt = False\<rparr> no_text Inr
       ([0xDD, 0x01, 0x00] @ replicate 256 0xC0) = Inl readError"
proof -
  have two: "(2::nat) = Suc (Suc 0)" by simp
  have "invoke (Suc (Suc 0)) empty_text Inr (VStructure 0x4E (replicate 256 VNull))
       \<lparr>ch = [], byteArraysSupported = True\<rparr> =
     (Return (), \<lparr>ch = [0xDD, 0x01, 0x00] @ replicate 256 0xC0, byteArraysSupported = True\<rparr>)"
    by (simp add: invoke_def packableFields_nulls packStruct_256)
  moreover have "unpack \<lparr>disableLosslessIntegers = False, useBigInt = False\<rparr> no_text Inr
       ([0xDD, 0x01, 0x00] @ replicate 256 0xC0) = Inl readError"
    using unpack_struct_256[of "\<lparr>disableLosslessIntegers = False, useBigInt = False\<rparr>" no_text Inr] by simp
  ultimately show ?thesis by (simp only: two)
qed

text \<open>
  Claim C4, at the list whose one element is this structure and at the map whose one entry has
  the key \<open>a\<close> and this structure as its value, with the identity as both hooks and the default
  flags: the closure of \<open>packable\<close> writes the header of the list, \<open>91\<close>, or the header of the map
  and the key, \<open>A1 81 61\<close>, and then \<open>DD 01 00\<close> and 256 times \<open>C0\<close>, and \<open>unpack\<close> fails on these
  bytes, where the claim has the list and the map come back.
\<close>

theorem composite_with_struct_16:
  "invoke 3 empty_text Inr (VArray [VStructure 0x4E (replicate 256 VNull)])
       \<lparr>ch = [], byteArraysSupported = True\<rparr> =
     (Return (), \<lparr>ch = [0x91, 0xDD, 0x01, 0x00] @ replicate 256 0xC0,
                  byteArraysSupported = True\<rparr>) \<and>
   unpack \<lparr>disableLosslessIntegers = False, useBigInt = False\<rparr> no_text Inr
       ([0x91, 0xDD, 0x01, 0x00] @ replicate 256 0xC0) = Inl readError \<and>
   invoke 3 empty_text Inr (VObject [(''a'', VStructure 0x4E (replicate 256 VNull))])
       \<lparr>ch = [], byteArraysSupported = True\<rparr> =
     (Return (), \<lparr>ch = [0xA1, 0x81, 0x61, 0xDD, 0x01, 0x00] @ replicate 256 0xC0,
                  byteArraysSupported = True\<rparr>) \<and>
   unpack \<lparr>disableLosslessIntegers = False, useBigInt = False\<rparr> no_text Inr
       ([0xA1, 0x81, 0x61, 0xDD, 0x01, 0x00] @ replicate 256 0xC0) = Inl readError"
proof -
  let ?U = "\<lparr>disableLosslessIntegers = False, useBigInt = False\<rparr>"
  let ?S = "VStructure 0x4E (replicate 256 VNull)"
  let ?bytes = "0xDD # 0x01 # 0x00 # replicate 256 (0xC0 :: byte)"
  have three: "(3::nat) = Suc (Suc (Suc 0))" by simp
  have lh: "packListHeader (Suc 0) s = (Return (), s\<lparr>ch := ch s @ [0x91]\<rparr>)" for s
    using packListHeader_bytes[of 1 s] by (simp add: size_header_def)
  have mh: "packMapHeader (Suc 0) s = (Return (), s\<lparr>ch := ch s @ [0xA1]\<rparr>)" for s
    using packMapHeader_bytes[of 1 s] by (simp add: size_header_def)
  have list: "invoke (Suc (Suc (Suc 0))) empty_text Inr (VArray [?S]) \<lparr>ch = [], byteArraysSupported = True\<rparr> =
     (Return (), \<lparr>ch = [0x91, 0xDD, 0x01, 0x00] @ replicate 256 0xC0,
                  byteArraysSupported = True\<rparr>)"
    by (simp add: invoke_def lh packableFields_nulls packStruct_256)
  have "length ''a'' < 2 ^ 32" by simp
  from packString_bytes[OF this]
  have key: "packString ''a'' s = (Return (), s\<lparr>ch := ch s @ [0x81, 0x61]\<rparr>)" for s
    by (simp add: size_header_def utf8_encode_def)
  have map: "invoke (Suc (Suc (Suc 0))) empty_text Inr (VObject [(''a'', ?S)]) \<lparr>ch = [], byteArraysSupported = True\<rparr> =
     (Return (), \<lparr>ch = [0xA1, 0x81, 0x61, 0xDD, 0x01, 0x00] @ replicate 256 0xC0,
                  byteArraysSupported = True\<rparr>)"
    by (simp add: invoke_def mh key packableFields_nulls packStruct_256)
  have fail: "unpack ?U no_text Inr ?bytes = Inl readError"
    by (rule unpack_struct_256)
  have "unpack ?U no_text Inr (size_header 0x90 0xD4 0xD5 0xD6 1 @ ?bytes) = Inl readError"
    by (subst unpack_list_header) (simp_all add: fail)
  then have ulist: "unpack ?U no_text Inr (0x91 # ?bytes) = Inl readError"
    by (simp add: size_header_def)
  have "unpack ?U no_text Inr
      (size_header 0x80 0xD0 0xD1 0xD2 (length ''a'') @ utf8_encode ''a'' @ ?bytes) =
      Inr (VString ''a'', ?bytes)"
    using utf8_roundtrip[of "''a''" ?bytes] by (subst unpack_string_header) simp_all
  then have ukey: "unpack ?U no_text Inr (0x81 # 0x61 # ?bytes) = Inr (VString ''a'', ?bytes)"
    by (simp add: size_header_def utf8_encode_def)
  have "unpack ?U no_text Inr (size_header 0xA0 0xD8 0xD9 0xDA 1 @ 0x81 # 0x61 # ?bytes) =
      Inl readError"
    by (subst unpack_map_header) (simp_all add: ukey fail)
  then have umap: "unpack ?U no_text Inr (0xA1 # 0x81 # 0x61 # ?bytes) = Inl readError"
    by (simp add: size_header_def)
  show ?thesis
    using list map ulist umap by (simp only: three) simp
qed

end
